theory Spec2Isabelle
  imports Main "HOL-Library.Char_ord" "HOL-Library.List_Lexorder"
begin

section \<open>Values exchanged with the remote service\<close>

text \<open>
  JSON-style values of request bodies and option dictionaries. A Python \<open>dict\<close> with
  string keys is a map from strings to values.
\<close>

datatype json = JNull | JBool bool | JInt int | JStr string | JDict "string \<Rightarrow> json option"

type_synonym dict = "string \<Rightarrow> json option"

text \<open>The members of pytket's \<open>StatusEnum\<close> that the status map of the backend uses.\<close>

datatype StatusEnum = QUEUED | RUNNING | COMPLETED | ERROR | CANCELLED

text \<open>
  Exceptions. The API handler is an external collaborator: what it raises is an
  \<open>api_exn\<close> (\<open>QuantinuumAPIError\<close>, a connection error, or anything else). The
  exception classes that \<open>quantinuum.py\<close> declares or raises itself, and those of the
  library calls it makes, are the other constructors of \<open>error\<close>: \<open>JSONDecodeError\<close>
  stands for what \<open>json.loads\<close> or \<open>Circuit.from_dict\<close> raise, \<open>LiteralError\<close> for what
  \<open>ast.literal_eval\<close>, the unpacking of its value or the multiplications by it raise,
  and \<open>QASMUnsupportedError\<close> for what \<open>circuit_to_qasm_str\<close> raises.
\<close>

datatype api_exn = QuantinuumAPIError | ConnectionError | OtherException

datatype error =
    GetResultFailed
  | NoSyntaxChecker
  | MaxShotsExceeded
  | WasmUnsupported
  | BatchingUnsupported
  | DeviceNotAvailable string
  | CircuitNotValidError
  | CircuitNotRunError
  | KeyError
  | ValueError
  | RuntimeError
  | JSONDecodeError
  | LiteralError
  | QASMUnsupportedError
  | Raised api_exn

text \<open>
  A status or job response of the service: the \<open>status\<close> key, the optional
  \<open>results\<close> key (register name to list of bit-strings, in the order of the dict)
  and the remaining keys.
\<close>

record response =
  r_status :: "string option"
  r_results :: "(string \<times> string list) list option"
  r_fields :: dict

record CircuitStatus =
  cs_status :: StatusEnum
  cs_message :: "(string \<times> json) list option"

section \<open>Status parsing\<close>

definition STATUS_MAP :: "string \<Rightarrow> StatusEnum option" where
  "STATUS_MAP =
     [''queued'' \<mapsto> QUEUED,
      ''running'' \<mapsto> RUNNING,
      ''completed'' \<mapsto> COMPLETED,
      ''failed'' \<mapsto> ERROR,
      ''canceling'' \<mapsto> CANCELLED,
      ''canceled'' \<mapsto> CANCELLED]"

definition message_keys :: "string list" where
  "message_keys =
     [''name'', ''submit-date'', ''result-date'', ''queue-position'', ''cost'', ''error'']"

text \<open>
  \<open>_parse_status\<close>: \<open>response["status"]\<close> and \<open>_STATUS_MAP[h_status]\<close> are dict
  subscripts, which raise \<open>KeyError\<close> on a missing key; \<open>response.get(k, None)\<close>
  does not. The message is kept as the dict that \<open>json.dumps\<close> serialises.
\<close>

definition parse_status :: "response \<Rightarrow> error + CircuitStatus" where
  "parse_status response =
     (case r_status response of
        None \<Rightarrow> Inl KeyError
      | Some h_status \<Rightarrow>
          (let msgdict =
                 map (\<lambda>k. (k, case r_fields response k of None \<Rightarrow> JNull | Some v \<Rightarrow> v))
                   message_keys
           in case STATUS_MAP h_status of
                None \<Rightarrow> Inl KeyError
              | Some s \<Rightarrow> Inr \<lparr>cs_status = s, cs_message = Some msgdict\<rparr>))"

section \<open>Result decoding\<close>

text \<open>
  The numpy arrays that \<open>_convert_result\<close> builds: one-dimensional (what
  \<open>np.array([])\<close> gives) or two-dimensional with a known number of columns.
\<close>

datatype ndarray = Arr1 "nat list" | Arr2 nat "nat list list"

fun shape_last :: "ndarray \<Rightarrow> nat" where
  "shape_last (Arr1 xs) = length xs"
| "shape_last (Arr2 w rows) = w"

fun traverse :: "('a \<Rightarrow> error + 'b) \<Rightarrow> 'a list \<Rightarrow> error + 'b list" where
  "traverse f [] = Inr []"
| "traverse f (x # xs) =
     (case f x of
        Inl e \<Rightarrow> Inl e
      | Inr y \<Rightarrow> (case traverse f xs of Inl e \<Rightarrow> Inl e | Inr ys \<Rightarrow> Inr (y # ys)))"

text \<open>\<open>astype(np.uint8)\<close> on a one-character string: a decimal digit, or \<open>ValueError\<close>.\<close>

definition is_digit :: "char \<Rightarrow> bool" where
  "is_digit c = (c \<in> set ''0123456789'')"

definition digit_val :: "char \<Rightarrow> nat" where
  "digit_val c = of_char c - 48"

definition char_to_uint8 :: "char \<Rightarrow> error + nat" where
  "char_to_uint8 c = (if is_digit c then Inr (digit_val c) else Inl ValueError)"

text \<open>
  \<open>np.array([list(a) for a in reslist]).astype(np.uint8)\<close>: no rows give the empty
  one-dimensional array, rows of one length a two-dimensional array, ragged rows an
  exception.
\<close>

definition np_array_uint8 :: "string list \<Rightarrow> error + ndarray" where
  "np_array_uint8 reslist =
     (case reslist of
        [] \<Rightarrow> Inr (Arr1 [])
      | a # as \<Rightarrow>
          if list_all (\<lambda>b. length b = length a) as
          then (case traverse (traverse char_to_uint8) reslist of
                  Inl e \<Rightarrow> Inl e
                | Inr rows \<Rightarrow> Inr (Arr2 (length a) rows))
          else Inl ValueError)"

fun all_1d :: "ndarray list \<Rightarrow> nat list option" where
  "all_1d [] = Some []"
| "all_1d (Arr1 xs # as) = map_option (\<lambda>ys. xs @ ys) (all_1d as)"
| "all_1d (Arr2 w rows # as) = None"

text \<open>Two-dimensional arrays of \<open>n\<close> rows each, joined along the columns.\<close>

fun all_2d :: "nat \<Rightarrow> ndarray list \<Rightarrow> (nat \<times> nat list list) option" where
  "all_2d n [] = Some (0, replicate n [])"
| "all_2d n (Arr1 xs # as) = None"
| "all_2d n (Arr2 w rows # as) =
     (if length rows = n
      then map_option (\<lambda>(w', rows'). (w + w', map2 (@) rows rows')) (all_2d n as)
      else None)"

text \<open>
  \<open>np.hstack\<close>: no arrays raise; when the first array is one-dimensional all are
  concatenated along axis 0, otherwise along axis 1, and arrays of different
  dimensions or row counts raise.
\<close>

definition np_hstack :: "ndarray list \<Rightarrow> error + ndarray" where
  "np_hstack arrs =
     (case arrs of
        [] \<Rightarrow> Inl ValueError
      | Arr1 xs # as \<Rightarrow>
          (case all_1d arrs of None \<Rightarrow> Inl ValueError | Some ys \<Rightarrow> Inr (Arr1 ys))
      | Arr2 w rows # as \<Rightarrow>
          (case all_2d (length rows) arrs of
             None \<Rightarrow> Inl ValueError
           | Some (w', rows') \<Rightarrow> Inr (Arr2 w' rows')))"

text \<open>
  pytket's \<open>OutcomeArray.from_readouts\<close> packs each row into bits with
  \<open>np.packbits\<close>, which takes every non-zero cell for 1, and keeps the width; a
  one-dimensional input is refused. The table is kept here as the rows of bits that
  come back from it, one row per shot.
\<close>

record OutcomeArray =
  oa_width :: nat
  oa_rows :: "nat list list"

definition packbit :: "nat \<Rightarrow> nat" where
  "packbit v = (if v = 0 then 0 else 1)"

definition from_readouts :: "ndarray \<Rightarrow> error + OutcomeArray" where
  "from_readouts a =
     (case a of
        Arr1 xs \<Rightarrow> Inl ValueError
      | Arr2 w rows \<Rightarrow> Inr \<lparr>oa_width = w, oa_rows = map (map packbit) rows\<rparr>)"

text \<open>
  \<open>BackendResult\<close>: the classical bits \<open>Bit(name, ind)\<close> labelling the columns, the
  shot table, and the post-processing circuit (kept in its serialised form).
\<close>

record BackendResult =
  br_c_bits :: "(string \<times> nat) list"
  br_shots :: OutcomeArray
  br_ppcirc :: "string option"

definition dict_get :: "('k \<times> 'v) list \<Rightarrow> 'k \<Rightarrow> error + 'v" where
  "dict_get d k = (case map_of d k of None \<Rightarrow> Inl KeyError | Some v \<Rightarrow> Inr v)"

definition convert_result ::
  "(string \<times> string list) list \<Rightarrow> string option \<Rightarrow> error + BackendResult" where
  "convert_result resultdict ppcirc =
     (case traverse (\<lambda>(creg, reslist).
                        case np_array_uint8 reslist of
                          Inl e \<Rightarrow> Inl e
                        | Inr a \<Rightarrow> Inr (creg, a)) resultdict of
        Inl e \<Rightarrow> Inl e
      | Inr array_dict \<Rightarrow>
          (let reversed_creg_names = rev (sort (map fst array_dict)) in
           case traverse (dict_get array_dict) reversed_creg_names of
             Inl e \<Rightarrow> Inl e
           | Inr arrays \<Rightarrow>
               (let c_bits =
                      concat (map (\<lambda>(name, a). map (\<lambda>ind. (name, ind)) (rev [0..<shape_last a]))
                                (zip reversed_creg_names arrays))
                in case np_hstack arrays of
                     Inl e \<Rightarrow> Inl e
                   | Inr stacked_array \<Rightarrow>
                       (case from_readouts stacked_array of
                          Inl e \<Rightarrow> Inl e
                        | Inr shots \<Rightarrow>
                            Inr \<lparr>br_c_bits = c_bits, br_shots = shots, br_ppcirc = ppcirc\<rparr>))))"

section \<open>Debug handles: printing and reading a pair of integers\<close>

text \<open>
  Python's \<open>str\<close> of an \<open>int\<close> and of a pair of \<open>int\<close>s, and a reader of exactly the
  texts that \<open>str\<close> prints for such a pair: \<open>literal_eval_pair\<close> fails on every other
  text. What \<open>ast.literal_eval\<close> does on the other texts is left to the backend's
  environment, see \<open>literal_eval\<close> below.
\<close>

definition digit_char :: "nat \<Rightarrow> char" where
  "digit_char d = ''0123456789'' ! d"

function str_nat :: "nat \<Rightarrow> string" where
  "str_nat n = (if n < 10 then [digit_char n] else str_nat (n div 10) @ [digit_char (n mod 10)])"
  by pat_completeness auto
termination
  by (relation "measure (\<lambda>n. n)") auto

declare str_nat.simps [simp del]

definition str_int :: "int \<Rightarrow> string" where
  "str_int i = (if i < 0 then CHR ''-'' # str_nat (nat (- i)) else str_nat (nat i))"

definition str_tuple2 :: "int \<Rightarrow> int \<Rightarrow> string" where
  "str_tuple2 a b = ''('' @ str_int a @ '', '' @ str_int b @ '')''"

definition parse_nat :: "string \<Rightarrow> nat option" where
  "parse_nat s =
     (if s \<noteq> [] \<and> list_all is_digit s \<and> (length s = 1 \<or> hd s \<noteq> CHR ''0'')
      then Some (foldl (\<lambda>acc c. 10 * acc + digit_val c) 0 s)
      else None)"

definition parse_int :: "string \<Rightarrow> int option" where
  "parse_int s =
     (case s of
        [] \<Rightarrow> None
      | c # ds \<Rightarrow>
          if c = CHR ''-'' then map_option (\<lambda>n. - int n) (parse_nat ds)
          else map_option int (parse_nat s))"

definition literal_eval_pair :: "string \<Rightarrow> error + (int \<times> int)" where
  "literal_eval_pair s =
     (case s of
        [] \<Rightarrow> Inl ValueError
      | c # rest \<Rightarrow>
          if c \<noteq> CHR ''('' then Inl ValueError
          else
            (let a = takeWhile (\<lambda>x. x \<noteq> CHR '','') rest;
                 rest1 = dropWhile (\<lambda>x. x \<noteq> CHR '','') rest;
                 b = takeWhile (\<lambda>x. x \<noteq> CHR '')'') (drop 2 rest1);
                 rest2 = dropWhile (\<lambda>x. x \<noteq> CHR '')'') (drop 2 rest1)
             in if take 2 rest1 = '', '' \<and> rest2 = '')''
                then (case (parse_int a, parse_int b) of
                        (Some x, Some y) \<Rightarrow> Inr (x, y)
                      | _ \<Rightarrow> Inl ValueError)
                else Inl ValueError))"

definition DEBUG_HANDLE_PREFIX :: string where
  "DEBUG_HANDLE_PREFIX = ''_MACHINE_DEBUG_''"

definition startswith :: "string \<Rightarrow> string \<Rightarrow> bool" where
  "startswith s p = (take (length p) s = p)"

section \<open>Devices, circuits and the API handler\<close>

datatype OpType =
    Rz | PhasedX | ZZMax | Reset | Measure | Barrier | RangePredicate | MultiBit
  | ExplicitPredicate | ExplicitModifier | SetBits | CopyBits | ClassicalExpBox | WASM
  | ZZPhase | OtherOp string

definition GATE_SET :: "OpType set" where
  "GATE_SET =
     {Rz, PhasedX, ZZMax, Reset, Measure, Barrier, RangePredicate, MultiBit,
      ExplicitPredicate, ExplicitModifier, SetBits, CopyBits, ClassicalExpBox, WASM}"

definition get_gateset :: "string list \<Rightarrow> OpType set" where
  "get_gateset gates = (if ''RZZ'' \<in> set gates then insert ZZPhase GATE_SET else GATE_SET)"

text \<open>
  One entry of the service's machine list, and the \<open>BackendInfo\<close> made from it. The
  keys of \<open>misc\<close> that the backend reads are fields; \<open>misc.get(k, False)\<close> on an
  absent key is \<open>None\<close> here.
\<close>

record device_entry =
  d_name :: string
  d_n_qubits :: nat
  d_gateset :: "string list option"
  d_n_shots :: "int option"
  d_batching :: "bool option"
  d_wasm :: "bool option"
  d_syntax_checker :: "string option"

record BackendInfo =
  bi_device_name :: string
  bi_n_nodes :: nat
  bi_gate_set :: "OpType set"
  misc_n_shots :: "int option"
  misc_batching :: "bool option"
  misc_wasm :: "bool option"
  misc_syntax_checker :: "string option"
  misc_options :: dict

text \<open>
  A circuit, as far as the backend looks at it: its name, its qubit count, its
  classical registers with their widths, the operation types it contains and whether
  it has free symbols. The texts that pytket computes from it are fields as well:
  \<open>circuit_to_qasm_str\<close> of the circuit and of the circuit that \<open>prepare_circuit\<close>
  returns (\<open>None\<close> when the conversion raises), and the serialised post-processing
  circuit.
\<close>

record circuit =
  c_name :: "string option"
  c_n_qubits :: nat
  c_registers :: "(string \<times> nat) list"
  c_optypes :: "OpType list"
  c_symbolic :: bool
  c_qasm :: "string option"
  c_prepared_qasm :: "string option"
  c_ppcirc_rep :: string

definition n_bits :: "circuit \<Rightarrow> nat" where
  "n_bits c = sum_list (map snd (c_registers c))"

datatype Predicate = NoSymbolsPredicate | GateSetPredicate "OpType set" | MaxNQubitsPredicate nat

fun verify :: "Predicate \<Rightarrow> circuit \<Rightarrow> bool" where
  "verify NoSymbolsPredicate c = (\<not> c_symbolic c)"
| "verify (GateSetPredicate gs) c = list_all (\<lambda>t. t \<in> gs) (c_optypes c)"
| "verify (MaxNQubitsPredicate n) c = (c_n_qubits c \<le> n)"

type_synonym ResultHandle = "string \<times> string"

text \<open>
  The calls that reach the API handler, in the order they are made. The handler is
  any stateful collaborator: each of its answers is a function of the calls made
  before and of the arguments.
\<close>

datatype api_call =
    Login
  | MachineList
  | SubmitJob dict
  | RetrieveJobStatus string bool
  | RetrieveJob string "int option" "int option" "bool option"

record submit_response =
  sr_status_code :: nat
  sr_job :: "string option"
  sr_error :: "string option"

record api =
  online :: bool
  on_login :: "api_call list \<Rightarrow> api_exn + unit"
  on_machine_list :: "api_call list \<Rightarrow> api_exn + device_entry list"
  on_submit_job :: "api_call list \<Rightarrow> dict \<Rightarrow> api_exn + submit_response"
  on_retrieve_job_status :: "api_call list \<Rightarrow> string \<Rightarrow> bool \<Rightarrow> api_exn + response option"
  on_retrieve_job ::
    "api_call list \<Rightarrow> string \<Rightarrow> int option \<Rightarrow> int option \<Rightarrow> bool option
       \<Rightarrow> api_exn + response option"

text \<open>
  What \<open>ast.literal_eval\<close> gives on a text, as far as \<open>get_result\<close> can tell: it
  raises, or its value unpacks into two integers (a tuple or list of two \<open>int\<close>s, with
  \<open>bool\<close>s counting as 0 and 1), or it is any other value.
\<close>

datatype literal = LitRaises | LitTwoInts int int | LitOther

text \<open>
  A \<open>QuantinuumBackend\<close>: the attributes set once by the constructor, and the
  attributes that change (\<open>_backend_info\<close>, \<open>_cache\<close>) together with the calls made
  to the API handler so far. Two library functions that the backend calls are not
  part of this repository and are carried with the backend as parameters:
  \<open>ext_literal_eval\<close> is \<open>ast.literal_eval\<close>, and \<open>ext_read_circuit\<close> is \<open>json.loads\<close>
  followed by \<open>Circuit.from_dict\<close> (\<open>None\<close> when one of them raises, \<open>Some None\<close> when
  the text is JSON null, \<open>Some (Some c)\<close> when it is the circuit \<open>c\<close>).
\<close>

record backend =
  self_device_name :: string
  self_label :: "string option"
  self_group :: "string option"
  self_MACHINE_DEBUG :: bool
  self_simulator_type :: string
  self_api_handler :: api
  self_process_circuits_options :: dict
  ext_literal_eval :: "string \<Rightarrow> literal"
  ext_read_circuit :: "string \<Rightarrow> string option option"

record state =
  self_backend_info :: "BackendInfo option"
  self_cache :: "ResultHandle \<Rightarrow> BackendResult option option"
  api_calls :: "api_call list"

type_synonym 'a result = "(error + 'a) \<times> state"

definition api_invoke :: "api_call \<Rightarrow> (api_call list \<Rightarrow> api_exn + 'a) \<Rightarrow> state \<Rightarrow> 'a result" where
  "api_invoke c f s =
     (case f (api_calls s) of
        Inl e \<Rightarrow> (Inl (Raised e), s\<lparr>api_calls := api_calls s @ [c]\<rparr>)
      | Inr v \<Rightarrow> (Inr v, s\<lparr>api_calls := api_calls s @ [c]\<rparr>))"

section \<open>The device descriptor\<close>

text \<open>\<open>_available_devices\<close>: log in, then fetch the machine list.\<close>

definition available_devices :: "api \<Rightarrow> state \<Rightarrow> device_entry list result" where
  "available_devices h s =
     (case api_invoke Login (on_login h) s of
        (Inl e, s1) \<Rightarrow> (Inl e, s1)
      | (Inr id_token, s1) \<Rightarrow> api_invoke MachineList (on_machine_list h) s1)"

definition dict_to_backendinfo :: "device_entry \<Rightarrow> dict \<Rightarrow> BackendInfo" where
  "dict_to_backendinfo dct options =
     \<lparr>bi_device_name = d_name dct,
      bi_n_nodes = d_n_qubits dct,
      bi_gate_set = get_gateset (case d_gateset dct of None \<Rightarrow> [] | Some gs \<Rightarrow> gs),
      misc_n_shots = d_n_shots dct,
      misc_batching = d_batching dct,
      misc_wasm = d_wasm dct,
      misc_syntax_checker = d_syntax_checker dct,
      misc_options = options\<rparr>"

definition retrieve_backendinfo :: "backend \<Rightarrow> string \<Rightarrow> state \<Rightarrow> BackendInfo result" where
  "retrieve_backendinfo self machine s =
     (case available_devices (self_api_handler self) s of
        (Inl e, s1) \<Rightarrow> (Inl e, s1)
      | (Inr jr, s1) \<Rightarrow>
          (case find (\<lambda>entry. d_name entry = machine) jr of
             None \<Rightarrow> (Inl (DeviceNotAvailable machine), s1)
           | Some machine_info \<Rightarrow>
               (Inr (dict_to_backendinfo machine_info (self_process_circuits_options self)), s1)))"

text \<open>The \<open>backend_info\<close> property: fetched on first use unless in debug mode.\<close>

definition backend_info :: "backend \<Rightarrow> state \<Rightarrow> BackendInfo option result" where
  "backend_info self s =
     (if self_backend_info s = None \<and> \<not> self_MACHINE_DEBUG self
      then (case retrieve_backendinfo self (self_device_name self) s of
              (Inl e, s1) \<Rightarrow> (Inl e, s1)
            | (Inr info, s1) \<Rightarrow> (Inr (Some info), s1\<lparr>self_backend_info := Some info\<rparr>))
      else (Inr (self_backend_info s), s))"

text \<open>
  \<open>_gate_set\<close> and \<open>required_predicates\<close>. Outside debug mode the property above never
  yields \<open>None\<close>; the attribute access and the assertion on \<open>None\<close> are the
  \<open>RuntimeError\<close> branches.
\<close>

definition gate_set :: "backend \<Rightarrow> state \<Rightarrow> OpType set result" where
  "gate_set self s =
     (if self_MACHINE_DEBUG self then (Inr GATE_SET, s)
      else (case backend_info self s of
              (Inl e, s1) \<Rightarrow> (Inl e, s1)
            | (Inr None, s1) \<Rightarrow> (Inl RuntimeError, s1)
            | (Inr (Some info), s1) \<Rightarrow> (Inr (bi_gate_set info), s1)))"

definition required_predicates :: "backend \<Rightarrow> state \<Rightarrow> Predicate list result" where
  "required_predicates self s =
     (case gate_set self s of
        (Inl e, s1) \<Rightarrow> (Inl e, s1)
      | (Inr gs, s1) \<Rightarrow>
          (let preds = [NoSymbolsPredicate, GateSetPredicate gs] in
           if \<not> self_MACHINE_DEBUG self
           then (case backend_info self s1 of
                   (Inl e, s2) \<Rightarrow> (Inl e, s2)
                 | (Inr None, s2) \<Rightarrow> (Inl RuntimeError, s2)
                 | (Inr (Some info), s2) \<Rightarrow> (Inr (preds @ [MaxNQubitsPredicate (bi_n_nodes info)]), s2))
           else (Inr preds, s1)))"

text \<open>
  pytket's \<open>Backend._check_all_circuits\<close>: every circuit must satisfy every required
  predicate, read anew for each circuit.
\<close>

fun check_all_circuits :: "backend \<Rightarrow> circuit list \<Rightarrow> state \<Rightarrow> unit result" where
  "check_all_circuits self [] s = (Inr (), s)"
| "check_all_circuits self (circ # circuits) s =
     (case required_predicates self s of
        (Inl e, s1) \<Rightarrow> (Inl e, s1)
      | (Inr preds, s1) \<Rightarrow>
          if list_all (\<lambda>pred. verify pred circ) preds
          then check_all_circuits self circuits s1
          else (Inl CircuitNotValidError, s1))"

section \<open>Submission\<close>

text \<open>
  The keyword arguments that \<open>process_circuits\<close>, \<open>circuit_status\<close> and \<open>get_result\<close>
  read with \<open>kwargs.get\<close>; \<open>None\<close> is an absent key. The WASM file handler is kept as
  the text of its encoded module, the pytket pass as its dict.
\<close>

record kwargs =
  kw_postprocess :: "bool option"
  kw_noisy_simulation :: "bool option"
  kw_group :: "string option option"
  kw_wasm_file_handler :: "string option"
  kw_pytketpass :: "json option"
  kw_no_opt :: "bool option"
  kw_options :: "dict option"
  kw_request_options :: "dict option"
  kw_use_websocket :: "bool option"
  kw_timeout :: "int option"
  kw_wait :: "int option"

definition get_or :: "'a option \<Rightarrow> 'a \<Rightarrow> 'a" where
  "get_or v d = (case v of None \<Rightarrow> d | Some x \<Rightarrow> x)"

text \<open>\<open>x or y\<close> on optional strings: \<open>None\<close> and the empty string are falsy.\<close>

definition str_or :: "string option \<Rightarrow> string option \<Rightarrow> string option" where
  "str_or x y = (case x of None \<Rightarrow> y | Some t \<Rightarrow> if t = [] then y else Some t)"

definition format_optional :: "string option \<Rightarrow> string" where
  "format_optional x = (case x of None \<Rightarrow> ''None'' | Some t \<Rightarrow> t)"

text \<open>
  The request body of \<open>submit_qasm\<close>, lines 497 to 529 without the WASM support
  check: the fixed fields, the optional compilation pass, group and linked module,
  then the three \<open>update\<close> calls in the order of the source.
\<close>

definition base_options :: "backend \<Rightarrow> bool \<Rightarrow> bool \<Rightarrow> json option \<Rightarrow> dict" where
  "base_options self no_opt noisy_simulation pytket_pass =
     [''simulator'' \<mapsto> JStr (self_simulator_type self),
      ''no-opt'' \<mapsto> JBool no_opt,
      ''error-model'' \<mapsto> JBool noisy_simulation,
      ''tket'' \<mapsto> JDict (case pytket_pass of
                            None \<Rightarrow> Map.empty
                          | Some p \<Rightarrow> [''compilation-pass'' \<mapsto> p])]"

definition merged_options ::
  "backend \<Rightarrow> bool \<Rightarrow> bool \<Rightarrow> json option \<Rightarrow> dict option \<Rightarrow> dict" where
  "merged_options self no_opt noisy_simulation pytket_pass options =
     (let opts = base_options self no_opt noisy_simulation pytket_pass
                   ++ self_process_circuits_options self
      in case options of None \<Rightarrow> opts | Some d \<Rightarrow> opts ++ d)"

definition request_body ::
  "backend \<Rightarrow> string \<Rightarrow> int \<Rightarrow> string option \<Rightarrow> bool \<Rightarrow> string option \<Rightarrow> string option
     \<Rightarrow> json option \<Rightarrow> bool \<Rightarrow> dict option \<Rightarrow> dict option \<Rightarrow> dict" where
  "request_body self qasm n_shots name noisy_simulation grp wasm_file_handler pytket_pass
       no_opt options request_options =
     (let body = [''name'' \<mapsto> JStr (case str_or name None of
                                        None \<Rightarrow> format_optional (self_label self)
                                      | Some t \<Rightarrow> t),
                  ''count'' \<mapsto> JInt n_shots,
                  ''machine'' \<mapsto> JStr (self_device_name self),
                  ''language'' \<mapsto> JStr ''OPENQASM 2.0'',
                  ''program'' \<mapsto> JStr qasm,
                  ''priority'' \<mapsto> JStr ''normal''];
          body = (case str_or grp (self_group self) of
                    None \<Rightarrow> body
                  | Some g \<Rightarrow> body(''group'' \<mapsto> JStr g));
          body = (case wasm_file_handler of
                    None \<Rightarrow> body
                  | Some w \<Rightarrow> body(''cfl'' \<mapsto> JStr w));
          body = body(''options'' \<mapsto>
                   JDict (merged_options self no_opt noisy_simulation pytket_pass options))
      in body ++ get_or request_options Map.empty)"

text \<open>The WASM support check of \<open>submit_qasm\<close> (lines 519 to 521).\<close>

definition wasm_check :: "backend \<Rightarrow> string option \<Rightarrow> state \<Rightarrow> unit result" where
  "wasm_check self wasm_file_handler s =
     (case wasm_file_handler of
        None \<Rightarrow> (Inr (), s)
      | Some w \<Rightarrow>
          (case backend_info self s of
             (Inl e, s1) \<Rightarrow> (Inl e, s1)
           | (Inr None, s1) \<Rightarrow> (Inr (), s1)
           | (Inr (Some info), s1) \<Rightarrow>
               if \<not> get_or (misc_wasm info) False then (Inl WasmUnsupported, s1)
               else (Inr (), s1)))"

definition submit_qasm ::
  "backend \<Rightarrow> string \<Rightarrow> int \<Rightarrow> string option \<Rightarrow> bool \<Rightarrow> string option \<Rightarrow> string option
     \<Rightarrow> json option \<Rightarrow> bool \<Rightarrow> dict option \<Rightarrow> dict option \<Rightarrow> state \<Rightarrow> ResultHandle result" where
  "submit_qasm self qasm n_shots name noisy_simulation grp wasm_file_handler pytket_pass
       no_opt options request_options s =
     (case wasm_check self wasm_file_handler s of
        (Inl e, s1) \<Rightarrow> (Inl e, s1)
      | (Inr u, s1) \<Rightarrow>
          (let body = request_body self qasm n_shots name noisy_simulation grp
                        wasm_file_handler pytket_pass no_opt options request_options
           in case api_invoke (SubmitJob body)
                     (\<lambda>h. on_submit_job (self_api_handler self) h body) s1 of
                (Inl e, s2) \<Rightarrow> (Inl e, s2)
              | (Inr res, s2) \<Rightarrow>
                  if online (self_api_handler self)
                  then (if sr_status_code res \<noteq> 200
                        then (case sr_error res of
                                None \<Rightarrow> (Inl KeyError, s2)
                              | Some msg \<Rightarrow> (Inl (Raised QuantinuumAPIError), s2))
                        else (case sr_job res of
                                None \<Rightarrow> (Inl KeyError, s2)
                              | Some job \<Rightarrow> (Inr (job, ''null''), s2)))
                  else (Inr ([], ''null''), s2)))"

text \<open>
  pytket's \<open>Backend._get_n_shots_as_list\<close> as \<open>process_circuits\<close> calls it
  (\<open>optional=False\<close>): every shot count must be given and positive, a single count is
  used for every circuit, and a sequence must be as long as the circuit list.
\<close>

datatype n_shots_arg = ShotsNone | ShotsInt int | ShotsSeq "int option list"

definition validate_n_shots :: "int option \<Rightarrow> bool" where
  "validate_n_shots n = (case n of None \<Rightarrow> False | Some k \<Rightarrow> k > 0)"

definition get_n_shots_as_list :: "n_shots_arg \<Rightarrow> nat \<Rightarrow> error + int list" where
  "get_n_shots_as_list n_shots n_circuits =
     (case n_shots of
        ShotsSeq ns \<Rightarrow>
          if \<not> list_all validate_n_shots ns then Inl ValueError
          else if length ns \<noteq> n_circuits then Inl ValueError
          else Inr (map (\<lambda>n. get_or n 0) ns)
      | ShotsInt k \<Rightarrow>
          if \<not> validate_n_shots (Some k) then Inl ValueError
          else Inr (replicate n_circuits k)
      | ShotsNone \<Rightarrow> Inl ValueError)"

text \<open>
  \<open>json.dumps\<close> of the optional post-processing circuit. Reading a handle's second
  component back (\<open>json.loads\<close>, then \<open>Circuit.from_dict\<close> unless the value is
  \<open>None\<close>): the text \<open>null\<close> is \<open>None\<close>, every other text is read by the environment
  and may raise.
\<close>

definition dumps_ppcirc :: "string option \<Rightarrow> string" where
  "dumps_ppcirc ppcirc_rep = (case ppcirc_rep of None \<Rightarrow> ''null'' | Some rep \<Rightarrow> rep)"

definition loads_ppcirc :: "backend \<Rightarrow> string \<Rightarrow> error + string option" where
  "loads_ppcirc self t =
     (if t = ''null'' then Inr None
      else (case ext_read_circuit self t of
              None \<Rightarrow> Inl JSONDecodeError
            | Some ppcirc \<Rightarrow> Inr ppcirc))"

text \<open>
  \<open>ast.literal_eval\<close>: on the text that \<open>str\<close> prints for a pair of integers it gives
  that pair; on every other text it is the environment's function.
\<close>

definition literal_eval :: "backend \<Rightarrow> string \<Rightarrow> literal" where
  "literal_eval self t =
     (case literal_eval_pair t of
        Inr (a, b) \<Rightarrow> LitTwoInts a b
      | Inl e \<Rightarrow> ext_literal_eval self t)"

text \<open>The test \<open>max_shots is not None and n_shots > max_shots\<close>.\<close>

definition exceeds_max :: "int option \<Rightarrow> int \<Rightarrow> bool" where
  "exceeds_max max_shots n_shots = (case max_shots of None \<Rightarrow> False | Some m \<Rightarrow> n_shots > m)"

text \<open>The loop of \<open>process_circuits\<close> over the circuits and their shot counts.\<close>

fun process_loop ::
  "backend \<Rightarrow> kwargs \<Rightarrow> int option \<Rightarrow> (circuit \<times> int) list \<Rightarrow> ResultHandle list \<Rightarrow> state
     \<Rightarrow> ResultHandle list result" where
  "process_loop self kw max_shots [] handle_list s = (Inr handle_list, s)"
| "process_loop self kw max_shots ((circ, n_shots) # rest) handle_list s =
     (if exceeds_max max_shots n_shots
      then (Inl MaxShotsExceeded, s)
      else
        (let postprocess = get_or (kw_postprocess kw) False;
             ppcirc_rep = (if postprocess then Some (c_ppcirc_rep circ) else None)
         in case (if postprocess then c_prepared_qasm circ else c_qasm circ) of
              None \<Rightarrow> (Inl QASMUnsupportedError, s)
            | Some quantinuum_circ \<Rightarrow>
            if self_MACHINE_DEBUG self
            then process_loop self kw max_shots rest
                   (handle_list @
                      [(DEBUG_HANDLE_PREFIX @ str_tuple2 (int (c_n_qubits circ)) n_shots,
                        dumps_ppcirc ppcirc_rep)]) s
            else
              (case submit_qasm self quantinuum_circ n_shots (str_or (c_name circ) None)
                      (get_or (kw_noisy_simulation kw) True)
                      (get_or (kw_group kw) (self_group self))
                      (kw_wasm_file_handler kw)
                      (kw_pytketpass kw)
                      (get_or (kw_no_opt kw) False)
                      (Some (get_or (kw_options kw) Map.empty))
                      (Some (get_or (kw_request_options kw) Map.empty)) s of
                 (Inl e, s1) \<Rightarrow> (Inl e, s1)
               | (Inr h, s1) \<Rightarrow>
                   (let handle = (fst h, dumps_ppcirc ppcirc_rep)
                    in process_loop self kw max_shots rest (handle_list @ [handle])
                         (s1\<lparr>self_cache := (self_cache s1)(handle \<mapsto> None)\<rparr>)))))"

definition process_circuits ::
  "backend \<Rightarrow> circuit list \<Rightarrow> n_shots_arg \<Rightarrow> bool \<Rightarrow> kwargs \<Rightarrow> state
     \<Rightarrow> ResultHandle list result" where
  "process_circuits self circuits n_shots valid_check kw s =
     (case get_n_shots_as_list n_shots (length circuits) of
        Inl e \<Rightarrow> (Inl e, s)
      | Inr n_shots_list \<Rightarrow>
          (case (if valid_check then check_all_circuits self circuits s else (Inr (), s)) of
             (Inl e, s1) \<Rightarrow> (Inl e, s1)
           | (Inr u, s1) \<Rightarrow>
               (case backend_info self s1 of
                  (Inl e, s2) \<Rightarrow> (Inl e, s2)
                | (Inr info, s2) \<Rightarrow>
                    (let max_shots = (case info of None \<Rightarrow> None | Some i \<Rightarrow> misc_n_shots i)
                     in process_loop self kw max_shots (zip circuits n_shots_list) [] s2))))"

section \<open>Batches\<close>

definition check_batchable :: "backend \<Rightarrow> state \<Rightarrow> unit result" where
  "check_batchable self s =
     (case backend_info self s of
        (Inl e, s1) \<Rightarrow> (Inl e, s1)
      | (Inr None, s1) \<Rightarrow> (Inr (), s1)
      | (Inr (Some info), s1) \<Rightarrow>
          if \<not> get_or (misc_batching info) False then (Inl BatchingUnsupported, s1)
          else (Inr (), s1))"

definition shots_arg :: "int option \<Rightarrow> n_shots_arg" where
  "shots_arg n = (case n of None \<Rightarrow> ShotsNone | Some k \<Rightarrow> ShotsInt k)"

definition start_batch ::
  "backend \<Rightarrow> int \<Rightarrow> circuit \<Rightarrow> int option \<Rightarrow> bool \<Rightarrow> kwargs \<Rightarrow> state \<Rightarrow> ResultHandle result" where
  "start_batch self max_batch_cost circ n_shots valid_check kw s =
     (case check_batchable self s of
        (Inl e, s1) \<Rightarrow> (Inl e, s1)
      | (Inr u, s1) \<Rightarrow>
          (let kw1 = kw\<lparr>kw_request_options := Some [''batch-exec'' \<mapsto> JInt max_batch_cost]\<rparr>
           in case process_circuits self [circ] (shots_arg n_shots) valid_check kw1 s1 of
                (Inl e, s2) \<Rightarrow> (Inl e, s2)
              | (Inr hs, s2) \<Rightarrow>
                  (case hs of
                     [h1] \<Rightarrow>
                       (case api_invoke
                               (RetrieveJobStatus (fst h1) (get_or (kw_use_websocket kw) True))
                               (\<lambda>h. on_retrieve_job_status (self_api_handler self) h (fst h1)
                                       (get_or (kw_use_websocket kw) True)) s2 of
                          (Inl e, s3) \<Rightarrow> (Inl e, s3)
                        | (Inr r, s3) \<Rightarrow> (Inr h1, s3))
                   | _ \<Rightarrow> (Inl ValueError, s2))))"

definition add_to_batch ::
  "backend \<Rightarrow> ResultHandle \<Rightarrow> circuit \<Rightarrow> int option \<Rightarrow> bool \<Rightarrow> bool \<Rightarrow> kwargs \<Rightarrow> state
     \<Rightarrow> ResultHandle result" where
  "add_to_batch self batch_start_job circ n_shots batch_end valid_check kw s =
     (case check_batchable self s of
        (Inl e, s1) \<Rightarrow> (Inl e, s1)
      | (Inr u, s1) \<Rightarrow>
          (let req_opt = [''batch-exec'' \<mapsto> JStr (fst batch_start_job)];
               req_opt = (if batch_end then req_opt(''batch-end'' \<mapsto> JBool True) else req_opt);
               kw1 = kw\<lparr>kw_request_options := Some req_opt\<rparr>
           in case process_circuits self [circ] (shots_arg n_shots) valid_check kw1 s1 of
                (Inl e, s2) \<Rightarrow> (Inl e, s2)
              | (Inr hs, s2) \<Rightarrow>
                  (case hs of [] \<Rightarrow> (Inl RuntimeError, s2) | h # t \<Rightarrow> (Inr h, s2))))"

section \<open>Status and results\<close>

definition retrieve_job ::
  "backend \<Rightarrow> string \<Rightarrow> int option \<Rightarrow> int option \<Rightarrow> bool option \<Rightarrow> state \<Rightarrow> response result" where
  "retrieve_job self jobid timeout wait use_websocket s =
     (case api_invoke (RetrieveJob jobid timeout wait use_websocket)
             (\<lambda>h. on_retrieve_job (self_api_handler self) h jobid timeout wait use_websocket) s of
        (Inl e, s1) \<Rightarrow> (Inl e, s1)
      | (Inr None, s1) \<Rightarrow> (Inl RuntimeError, s1)
      | (Inr (Some job_dict), s1) \<Rightarrow> (Inr job_dict, s1))"

definition update_cache_result :: "ResultHandle \<Rightarrow> BackendResult \<Rightarrow> state \<Rightarrow> state" where
  "update_cache_result handle res s = s\<lparr>self_cache := (self_cache s)(handle \<mapsto> Some res)\<rparr>"

definition is_debug_handle :: "backend \<Rightarrow> string \<Rightarrow> bool" where
  "is_debug_handle self jobid = (self_MACHINE_DEBUG self \<or> startswith jobid DEBUG_HANDLE_PREFIX)"

definition circuit_status :: "backend \<Rightarrow> ResultHandle \<Rightarrow> kwargs \<Rightarrow> state \<Rightarrow> CircuitStatus result" where
  "circuit_status self handle kw s =
     (let jobid = fst handle in
      if is_debug_handle self jobid
      then (Inr \<lparr>cs_status = COMPLETED, cs_message = None\<rparr>, s)
      else
        (let use_websocket = get_or (kw_use_websocket kw) True;
             query = api_invoke (RetrieveJobStatus jobid use_websocket)
                       (\<lambda>h. on_retrieve_job_status (self_api_handler self) h jobid use_websocket);
             attempt =
               (case query s of
                  (Inl (Raised QuantinuumAPIError), s1) \<Rightarrow>
                    (case api_invoke Login (on_login (self_api_handler self)) s1 of
                       (Inl e, s2) \<Rightarrow> (Inl e, s2)
                     | (Inr u, s2) \<Rightarrow> query s2)
                | r \<Rightarrow> r)
         in case attempt of
              (Inl e, s3) \<Rightarrow> (Inl e, s3)
            | (Inr None, s3) \<Rightarrow> (Inl RuntimeError, s3)
            | (Inr (Some response), s3) \<Rightarrow>
                (case parse_status response of
                   Inl e \<Rightarrow> (Inl e, s3)
                 | Inr circ_status \<Rightarrow>
                     if cs_status circ_status = COMPLETED
                     then (case r_results response of
                             None \<Rightarrow> (Inr circ_status, s3)
                           | Some results \<Rightarrow>
                               (case loads_ppcirc self (snd handle) of
                                  Inl e \<Rightarrow> (Inl e, s3)
                                | Inr ppcirc \<Rightarrow>
                                    (case convert_result results ppcirc of
                                       Inl e \<Rightarrow> (Inl e, s3)
                                     | Inr res \<Rightarrow>
                                         (Inr circ_status, update_cache_result handle res s3))))
                     else (Inr circ_status, s3))))"

text \<open>
  \<open>get_result\<close>. The base class returns the cached result when the cache holds one
  for the handle and raises \<open>CircuitNotRunError\<close> otherwise, which is caught here; the
  handle's second component is then read back before anything else is done.
\<close>

definition cached_result :: "state \<Rightarrow> ResultHandle \<Rightarrow> BackendResult option" where
  "cached_result s handle = (case self_cache s handle of Some (Some res) \<Rightarrow> Some res | _ \<Rightarrow> None)"

definition get_result :: "backend \<Rightarrow> ResultHandle \<Rightarrow> kwargs \<Rightarrow> state \<Rightarrow> BackendResult result" where
  "get_result self handle kw s =
     (case cached_result s handle of
        Some res \<Rightarrow> (Inr res, s)
      | None \<Rightarrow>
          (let jobid = fst handle in
           case loads_ppcirc self (snd handle) of
             Inl e \<Rightarrow> (Inl e, s)
           | Inr ppcirc \<Rightarrow>
              if is_debug_handle self jobid
              then (case literal_eval self (drop (length DEBUG_HANDLE_PREFIX) jobid) of
                      LitRaises \<Rightarrow> (Inl LiteralError, s)
                    | LitOther \<Rightarrow> (Inl LiteralError, s)
                    | LitTwoInts n_qubits shots \<Rightarrow>
                        (convert_result
                           [(''c'', replicate (nat shots) (replicate (nat n_qubits) CHR ''0''))]
                           ppcirc, s))
              else
                (case retrieve_job self jobid (kw_timeout kw) (kw_wait kw) (kw_use_websocket kw) s of
                   (Inl e, s1) \<Rightarrow> (Inl e, s1)
                 | (Inr job_retrieve, s1) \<Rightarrow>
                     (case parse_status job_retrieve of
                        Inl e \<Rightarrow> (Inl e, s1)
                      | Inr circ_status \<Rightarrow>
                          if cs_status circ_status \<notin> {COMPLETED, CANCELLED}
                          then (Inl GetResultFailed, s1)
                          else (case r_results job_retrieve of
                                  None \<Rightarrow> (Inl GetResultFailed, s1)
                                | Some res \<Rightarrow>
                                    (case convert_result res ppcirc of
                                       Inl e \<Rightarrow> (Inl e, s1)
                                     | Inr backres \<Rightarrow>
                                         (Inr backres, update_cache_result handle backres s1)))))))"

section \<open>Example values\<close>

text \<open>Concrete circuits, devices, handlers and backends on which the theorems below are run.\<close>

definition known_statuses :: "string list" where
  "known_statuses = [''queued'', ''running'', ''completed'', ''failed'', ''canceling'', ''canceled'']"

definition ex_circuit :: circuit where
  "ex_circuit =
     \<lparr>c_name = Some ''bell'', c_n_qubits = 2, c_registers = [(''c'', 3)],
      c_optypes = [PhasedX, ZZMax, Measure], c_symbolic = False,
      c_qasm = Some ''OPENQASM 2.0;'', c_prepared_qasm = Some ''OPENQASM 2.0;'',
      c_ppcirc_rep = ''{}''\<rparr>"

definition ex_kwargs :: kwargs where
  "ex_kwargs =
     \<lparr>kw_postprocess = None, kw_noisy_simulation = None, kw_group = None,
      kw_wasm_file_handler = None, kw_pytketpass = None, kw_no_opt = None, kw_options = None,
      kw_request_options = None, kw_use_websocket = None, kw_timeout = None, kw_wait = None\<rparr>"

definition ex_device :: device_entry where
  "ex_device =
     \<lparr>d_name = ''H1-1'', d_n_qubits = 20, d_gateset = Some [''RZZ''], d_n_shots = Some 100,
      d_batching = None, d_wasm = None, d_syntax_checker = Some ''H1-1SC''\<rparr>"

definition ex_response :: "string \<Rightarrow> (string \<times> string list) list option \<Rightarrow> response" where
  "ex_response st res = \<lparr>r_status = Some st, r_results = res, r_fields = Map.empty\<rparr>"

definition ex_api :: api where
  "ex_api =
     \<lparr>online = True,
      on_login = (\<lambda>h. Inr ()),
      on_machine_list = (\<lambda>h. Inr [ex_device]),
      on_submit_job = (\<lambda>h b. Inr \<lparr>sr_status_code = 200, sr_job = Some ''job-1'', sr_error = None\<rparr>),
      on_retrieve_job_status =
        (\<lambda>h j w. if Login \<in> set h then Inr (Some (ex_response ''paused'' None))
                  else Inl QuantinuumAPIError),
      on_retrieve_job = (\<lambda>h j t w u. Inr (Some (ex_response j (Some [(''c'', [''01''])]))))\<rparr>"

definition ex_backend :: backend where
  "ex_backend =
     \<lparr>self_device_name = ''H1-1'', self_label = Some ''job'', self_group = None,
      self_MACHINE_DEBUG = False, self_simulator_type = ''state-vector'',
      self_api_handler = ex_api, self_process_circuits_options = Map.empty,
      ext_literal_eval = (\<lambda>t. LitRaises), ext_read_circuit = (\<lambda>t. None)\<rparr>"

definition ex_state :: state where
  "ex_state = \<lparr>self_backend_info = None, self_cache = Map.empty, api_calls = []\<rparr>"

definition ex_debug_backend :: backend where
  "ex_debug_backend = ex_backend\<lparr>self_MACHINE_DEBUG := True\<rparr>"

section \<open>The shot-table layout\<close>

text \<open>
  The layout that a decoded shot table must have, written from the data model: a
  payload of \<open>n\<close> shots is well formed when it has at least one register, register
  names are distinct (it is a dict), and every register has \<open>n\<close> strings of one
  length made of the bit characters 0 and 1. Registers come in
  descending name order; within a register the columns are labelled with the bit indices
  from the highest down to 0, and hold the characters of the string from first to
  last, so the first character of a string is the most significant bit.
\<close>

definition reg_width :: "string list \<Rightarrow> nat" where
  "reg_width reslist = (case reslist of [] \<Rightarrow> 0 | a # as \<Rightarrow> length a)"

definition reg_rows :: "(string \<times> string list) list \<Rightarrow> string \<Rightarrow> string list" where
  "reg_rows resultdict name = (case map_of resultdict name of None \<Rightarrow> [] | Some reslist \<Rightarrow> reslist)"

definition is_bit :: "char \<Rightarrow> bool" where
  "is_bit c = (c = CHR ''0'' \<or> c = CHR ''1'')"

definition wf_register :: "nat \<Rightarrow> string list \<Rightarrow> bool" where
  "wf_register n reslist =
     (length reslist = n
      \<and> list_all (\<lambda>a. length a = reg_width reslist \<and> list_all is_bit a) reslist)"

definition wf_payload :: "nat \<Rightarrow> (string \<times> string list) list \<Rightarrow> bool" where
  "wf_payload n resultdict =
     (resultdict \<noteq> [] \<and> 0 < n \<and> distinct (map fst resultdict)
      \<and> list_all (\<lambda>(creg, reslist). wf_register n reslist) resultdict)"

definition names_desc :: "(string \<times> string list) list \<Rightarrow> string list" where
  "names_desc resultdict = rev (sort (map fst resultdict))"

definition expected_c_bits :: "(string \<times> string list) list \<Rightarrow> (string \<times> nat) list" where
  "expected_c_bits resultdict =
     concat (map (\<lambda>name. map (\<lambda>ind. (name, ind)) (rev [0..<reg_width (reg_rows resultdict name)]))
               (names_desc resultdict))"

definition expected_row :: "(string \<times> string list) list \<Rightarrow> nat \<Rightarrow> nat list" where
  "expected_row resultdict j =
     concat (map (\<lambda>name. map digit_val (reg_rows resultdict name ! j)) (names_desc resultdict))"

definition total_width :: "(string \<times> string list) list \<Rightarrow> nat" where
  "total_width resultdict = sum_list (map (\<lambda>(creg, reslist). reg_width reslist) resultdict)"

definition arr_of :: "string list \<Rightarrow> ndarray" where
  "arr_of reslist = Arr2 (reg_width reslist) (map (map digit_val) reslist)"

definition ex_payload :: "(string \<times> string list) list" where
  "ex_payload = [(''a'', [''01'', ''10'']), (''b'', [''110'', ''001''])]"

section \<open>Debug submissions and their results\<close>

text \<open>
  The handle that a debug-mode submission makes for a circuit and a shot count, and
  the result that is all zeros: \<open>shots\<close> rows of \<open>width\<close> zero bits, over the bits of one
  register \<open>c\<close>.
\<close>

definition debug_handle :: "kwargs \<Rightarrow> circuit \<Rightarrow> int \<Rightarrow> ResultHandle" where
  "debug_handle kw circ n_shots =
     (DEBUG_HANDLE_PREFIX @ str_tuple2 (int (c_n_qubits circ)) n_shots,
      dumps_ppcirc (if get_or (kw_postprocess kw) False then Some (c_ppcirc_rep circ) else None))"

definition zero_table :: "nat \<Rightarrow> nat \<Rightarrow> string option \<Rightarrow> BackendResult" where
  "zero_table shots width ppcirc =
     \<lparr>br_c_bits = map (\<lambda>ind. (''c'', ind)) (rev [0..<width]),
      br_shots = \<lparr>oa_width = width, oa_rows = replicate shots (replicate width 0)\<rparr>,
      br_ppcirc = ppcirc\<rparr>"

definition ex_debug_handle :: ResultHandle where
  "ex_debug_handle = (''_MACHINE_DEBUG_(2, 4)'', ''null'')"

text \<open>A handler whose job retrieval answers with a given record, and a backend using it.\<close>

definition ex_api_job :: "response \<Rightarrow> api" where
  "ex_api_job r = ex_api\<lparr>on_retrieve_job := (\<lambda>h j t w u. Inr (Some r))\<rparr>"

definition ex_backend_job :: "response \<Rightarrow> backend" where
  "ex_backend_job r = ex_backend\<lparr>self_api_handler := ex_api_job r\<rparr>"

text \<open>
  A handler whose login raises, one whose status query always raises, and backends
  using them.
\<close>

definition ex_backend_login_fails :: backend where
  "ex_backend_login_fails =
     ex_backend\<lparr>self_api_handler := ex_api\<lparr>on_login := (\<lambda>h. Inl ConnectionError)\<rparr>\<rparr>"

definition ex_backend_status_fails :: backend where
  "ex_backend_status_fails =
     ex_backend\<lparr>self_api_handler :=
       ex_api\<lparr>on_retrieve_job_status := (\<lambda>h j w. Inl QuantinuumAPIError)\<rparr>\<rparr>"

text \<open>The status query that \<open>circuit_status\<close> makes for a handle.\<close>

definition status_query :: "ResultHandle \<Rightarrow> kwargs \<Rightarrow> api_call" where
  "status_query handle kw = RetrieveJobStatus (fst handle) (get_or (kw_use_websocket kw) True)"

text \<open>A backend constructed with instance-level options.\<close>

definition ex_backend_options :: backend where
  "ex_backend_options =
     ex_backend\<lparr>self_process_circuits_options :=
       [''simulator'' \<mapsto> JStr ''stabilizer'', ''shared'' \<mapsto> JInt 1]\<rparr>"

text \<open>The calls that submit a job, counted in a list of calls.\<close>

definition is_submit :: "api_call \<Rightarrow> bool" where
  "is_submit c = (case c of SubmitJob body \<Rightarrow> True | _ \<Rightarrow> False)"

definition submissions :: "api_call list \<Rightarrow> nat" where
  "submissions cs = length (filter is_submit cs)"

text \<open>
  A backend state that holds the descriptor of the example device (at most 100 shots),
  and a circuit with free symbols, which no backend accepts.
\<close>

definition ex_info :: BackendInfo where
  "ex_info = dict_to_backendinfo ex_device Map.empty"

definition ex_state_info :: state where
  "ex_state_info = ex_state\<lparr>self_backend_info := Some ex_info\<rparr>"

definition ex_symbolic_circuit :: circuit where
  "ex_symbolic_circuit = ex_circuit\<lparr>c_symbolic := True\<rparr>"


definition is_descriptor_call :: "api_call \<Rightarrow> bool" where
  "is_descriptor_call c = (c = Login \<or> c = MachineList)"




section \<open>Errors of the descriptor and submission paths\<close>

lemma api_invoke_calls: "api_calls (snd (api_invoke c f s)) = api_calls s @ [c]"
  by (simp add: api_invoke_def split: sum.splits)

lemma api_invoke_cases:
  obtains e where "api_invoke c f s = (Inl (Raised e), s\<lparr>api_calls := api_calls s @ [c]\<rparr>)" "f (api_calls s) = Inl e"
  | v where "api_invoke c f s = (Inr v, s\<lparr>api_calls := api_calls s @ [c]\<rparr>)" "f (api_calls s) = Inr v"
  by (cases "f (api_calls s)") (auto simp: api_invoke_def)

lemma api_invoke_Inl: "api_invoke c f s = (Inl e, s') \<Longrightarrow> \<exists>x. e = Raised x"
  by (auto simp: api_invoke_def split: sum.splits)

lemma available_devices_Inl: "available_devices h s = (Inl e, s') \<Longrightarrow> \<exists>x. e = Raised x"
  by (auto simp: available_devices_def split: sum.splits prod.splits dest: api_invoke_Inl)

lemma retrieve_backendinfo_Inl:
  "retrieve_backendinfo self m s = (Inl e, s') \<Longrightarrow> (\<exists>x. e = Raised x) \<or> e = DeviceNotAvailable m"
  by (auto simp: retrieve_backendinfo_def split: sum.splits prod.splits option.splits dest: available_devices_Inl)

lemma backend_info_Inl:
  "backend_info self s = (Inl e, s') \<Longrightarrow> (\<exists>x. e = Raised x) \<or> (\<exists>m. e = DeviceNotAvailable m)"
  by (auto simp: backend_info_def split: sum.splits prod.splits option.splits if_splits dest: retrieve_backendinfo_Inl)

lemma backend_info_Inr:
  "backend_info self s = (Inr r, s') \<Longrightarrow> self_backend_info s' = r"
  by (auto simp: backend_info_def split: sum.splits prod.splits option.splits if_splits)

lemma backend_info_debug:
  "self_MACHINE_DEBUG self \<Longrightarrow> backend_info self s = (Inr (self_backend_info s), s)"
  by (simp add: backend_info_def)


lemma check_batchable_debug:
  "self_MACHINE_DEBUG self \<Longrightarrow> self_backend_info s = None \<Longrightarrow> check_batchable self s = (Inr (), s)"
  by (simp add: check_batchable_def backend_info_debug)

lemma check_batchable_unsupported:
  "check_batchable self s = (Inl BatchingUnsupported, s') \<Longrightarrow>
     \<exists>info. self_backend_info s' = Some info \<and> misc_batching info \<noteq> Some True"
  by (auto simp: check_batchable_def get_or_def split: sum.splits prod.splits option.splits if_splits
      dest: backend_info_Inl backend_info_Inr)

lemma gate_set_Inl:
  "gate_set self s = (Inl e, s') \<Longrightarrow> e \<noteq> BatchingUnsupported"
  by (auto simp: gate_set_def split: sum.splits prod.splits option.splits if_splits dest: backend_info_Inl)

lemma required_predicates_Inl:
  "required_predicates self s = (Inl e, s') \<Longrightarrow> e \<noteq> BatchingUnsupported"
  by (auto simp: required_predicates_def Let_def split: sum.splits prod.splits option.splits if_splits
      dest: backend_info_Inl gate_set_Inl)

lemma check_all_circuits_Inl:
  "check_all_circuits self cs s = (Inl e, s') \<Longrightarrow> e \<noteq> BatchingUnsupported"
  by (induction cs arbitrary: s)
     (auto split: sum.splits prod.splits if_splits dest: required_predicates_Inl)

lemma wasm_check_Inl:
  "wasm_check self w s = (Inl e, s') \<Longrightarrow> e \<noteq> BatchingUnsupported"
  by (auto simp: wasm_check_def split: sum.splits prod.splits option.splits if_splits dest: backend_info_Inl)

lemma submit_qasm_Inl:
  "submit_qasm self q n nm ns g w pp no opts ro s = (Inl e, s') \<Longrightarrow> e \<noteq> BatchingUnsupported"
  by (auto simp: submit_qasm_def Let_def split: sum.splits prod.splits option.splits if_splits
      dest: wasm_check_Inl api_invoke_Inl)

lemma process_loop_Inl:
  "process_loop self kw m cns hs s = (Inl e, s') \<Longrightarrow> e \<noteq> BatchingUnsupported"
proof (induction cns arbitrary: hs s e)
  case Nil
  then show ?case by simp
next
  case (Cons cn rest)
  obtain circ n where cn: "cn = (circ, n)" by (cases cn)
  from Cons.prems show ?case
    unfolding cn
    by (auto simp: Let_def split: if_splits sum.splits prod.splits option.splits
        dest: submit_qasm_Inl Cons.IH)
qed

lemma process_circuits_Inl:
  "process_circuits self cs n vc kw s = (Inl e, s') \<Longrightarrow> e \<noteq> BatchingUnsupported"
  by (auto simp: process_circuits_def Let_def get_n_shots_as_list_def
      split: sum.splits prod.splits option.splits if_splits n_shots_arg.splits
      dest: check_all_circuits_Inl backend_info_Inl process_loop_Inl)

section \<open>The status map\<close>

lemma STATUS_MAP_dom: "dom STATUS_MAP = set known_statuses"
  by (auto simp: STATUS_MAP_def known_statuses_def split: if_splits)

lemma parse_status_unknown:
  "r_status r = Some st \<Longrightarrow> STATUS_MAP st = None \<Longrightarrow> parse_status r = Inl KeyError"
  by (simp add: parse_status_def)

lemma parse_status_known:
  "r_status r = Some st \<Longrightarrow> STATUS_MAP st = Some c \<Longrightarrow>
     \<exists>m. parse_status r = Inr \<lparr>cs_status = c, cs_message = m\<rparr>"
  by (simp add: parse_status_def)

lemma circuit_status_first_answer:
  assumes "\<not> is_debug_handle self (fst handle)"
    and "on_retrieve_job_status (self_api_handler self) (api_calls s) (fst handle)
           (get_or (kw_use_websocket kw) True) = Inr (Some r)"
    and "parse_status r = Inl e"
  shows "fst (circuit_status self handle kw s) = Inl e"
  using assms by (simp add: circuit_status_def Let_def api_invoke_def)

lemma get_result_parse_error:
  assumes "cached_result s handle = None" "\<not> is_debug_handle self (fst handle)"
    and "loads_ppcirc self (snd handle) = Inr pp"
    and "on_retrieve_job (self_api_handler self) (api_calls s) (fst handle)
           (kw_timeout kw) (kw_wait kw) (kw_use_websocket kw) = Inr (Some r)"
    and "parse_status r = Inl e"
  shows "fst (get_result self handle kw s) = Inl e"
  using assms by (simp add: get_result_def Let_def retrieve_job_def api_invoke_def)

text \<open>
  Claim C10. The status map is defined on exactly the six remote status strings
  queued, running, completed, failed, canceling and canceled, with canceling and
  canceled both mapped to \<open>CANCELLED\<close>. Parsing a response with any other status
  string raises \<open>KeyError\<close> instead of returning a status, and neither
  \<open>circuit_status\<close> nor \<open>get_result\<close> catches it: \<open>circuit_status\<close> raises it as soon
  as the status query answers with such a response, and so does \<open>get_result\<close> once it
  has read the handle's second component and retrieved such a job.
\<close>

theorem status_map_six_strings:
  "dom STATUS_MAP =
     {''queued'', ''running'', ''completed'', ''failed'', ''canceling'', ''canceled''}
   \<and> STATUS_MAP ''queued'' = Some QUEUED
   \<and> STATUS_MAP ''running'' = Some RUNNING
   \<and> STATUS_MAP ''completed'' = Some COMPLETED
   \<and> STATUS_MAP ''failed'' = Some ERROR
   \<and> STATUS_MAP ''canceling'' = Some CANCELLED
   \<and> STATUS_MAP ''canceled'' = Some CANCELLED
   \<and> (\<forall>r st. r_status r = Some st \<longrightarrow>
          (case STATUS_MAP st of
             None \<Rightarrow> parse_status r = Inl KeyError
           | Some c \<Rightarrow> (\<exists>m. parse_status r = Inr \<lparr>cs_status = c, cs_message = m\<rparr>)))
   \<and> (\<forall>self handle kw s r st.
          \<not> is_debug_handle self (fst handle)
          \<and> on_retrieve_job_status (self_api_handler self) (api_calls s) (fst handle)
               (get_or (kw_use_websocket kw) True) = Inr (Some r)
          \<and> r_status r = Some st \<and> st \<notin> dom STATUS_MAP
          \<longrightarrow> fst (circuit_status self handle kw s) = Inl KeyError)
   \<and> (\<forall>self handle kw s r st pp.
          cached_result s handle = None \<and> \<not> is_debug_handle self (fst handle)
          \<and> loads_ppcirc self (snd handle) = Inr pp
          \<and> on_retrieve_job (self_api_handler self) (api_calls s) (fst handle)
               (kw_timeout kw) (kw_wait kw) (kw_use_websocket kw) = Inr (Some r)
          \<and> r_status r = Some st \<and> st \<notin> dom STATUS_MAP
          \<longrightarrow> fst (get_result self handle kw s) = Inl KeyError)"
proof -
  have d: "dom STATUS_MAP =
     {''queued'', ''running'', ''completed'', ''failed'', ''canceling'', ''canceled''}"
    using STATUS_MAP_dom by (simp add: known_statuses_def)
  have v: "STATUS_MAP ''queued'' = Some QUEUED" "STATUS_MAP ''running'' = Some RUNNING"
    "STATUS_MAP ''completed'' = Some COMPLETED" "STATUS_MAP ''failed'' = Some ERROR"
    "STATUS_MAP ''canceling'' = Some CANCELLED" "STATUS_MAP ''canceled'' = Some CANCELLED"
    by (simp_all add: STATUS_MAP_def)
  have p: "\<forall>r st. r_status r = Some st \<longrightarrow>
          (case STATUS_MAP st of
             None \<Rightarrow> parse_status r = Inl KeyError
           | Some c \<Rightarrow> (\<exists>m. parse_status r = Inr \<lparr>cs_status = c, cs_message = m\<rparr>))"
    by (auto split: option.splits dest: parse_status_unknown parse_status_known)
  have c: "\<forall>self handle kw s r st.
          \<not> is_debug_handle self (fst handle)
          \<and> on_retrieve_job_status (self_api_handler self) (api_calls s) (fst handle)
               (get_or (kw_use_websocket kw) True) = Inr (Some r)
          \<and> r_status r = Some st \<and> st \<notin> dom STATUS_MAP
          \<longrightarrow> fst (circuit_status self handle kw s) = Inl KeyError"
    by (metis circuit_status_first_answer parse_status_unknown domIff)
  have g: "\<forall>self handle kw s r st pp.
          cached_result s handle = None \<and> \<not> is_debug_handle self (fst handle)
          \<and> loads_ppcirc self (snd handle) = Inr pp
          \<and> on_retrieve_job (self_api_handler self) (api_calls s) (fst handle)
               (kw_timeout kw) (kw_wait kw) (kw_use_websocket kw) = Inr (Some r)
          \<and> r_status r = Some st \<and> st \<notin> dom STATUS_MAP
          \<longrightarrow> fst (get_result self handle kw s) = Inl KeyError"
    by (metis get_result_parse_error parse_status_unknown domIff)
  from d v p c g show ?thesis by blast
qed

theorem status_map_six_strings_witness:
  "parse_status (ex_response ''paused'' None) = Inl KeyError
   \<and> (\<exists>m. parse_status (ex_response ''canceling'' None) = Inr \<lparr>cs_status = CANCELLED, cs_message = m\<rparr>)
   \<and> fst (get_result ex_backend (''paused'', ''null'') ex_kwargs ex_state) = Inl KeyError"
proof -
  note t = status_map_six_strings
  have n: "STATUS_MAP ''paused'' = None" and c: "STATUS_MAP ''canceling'' = Some CANCELLED"
    by (simp_all add: STATUS_MAP_def)
  from t have p: "\<And>r st. r_status r = Some st \<Longrightarrow>
          (case STATUS_MAP st of
             None \<Rightarrow> parse_status r = Inl KeyError
           | Some c \<Rightarrow> (\<exists>m. parse_status r = Inr \<lparr>cs_status = c, cs_message = m\<rparr>))"
    by blast
  have a: "parse_status (ex_response ''paused'' None) = Inl KeyError"
    using p[of "ex_response ''paused'' None" "''paused''"] n by (simp add: ex_response_def)
  have b: "\<exists>m. parse_status (ex_response ''canceling'' None) = Inr \<lparr>cs_status = CANCELLED, cs_message = m\<rparr>"
    using p[of "ex_response ''canceling'' None" "''canceling''"] c by (simp add: ex_response_def)
  from t have g: "\<And>self handle kw s r st pp.
          cached_result s handle = None \<Longrightarrow> \<not> is_debug_handle self (fst handle)
          \<Longrightarrow> loads_ppcirc self (snd handle) = Inr pp
          \<Longrightarrow> on_retrieve_job (self_api_handler self) (api_calls s) (fst handle)
               (kw_timeout kw) (kw_wait kw) (kw_use_websocket kw) = Inr (Some r)
          \<Longrightarrow> r_status r = Some st \<Longrightarrow> st \<notin> dom STATUS_MAP
          \<Longrightarrow> fst (get_result self handle kw s) = Inl KeyError"
    by blast
  have e: "fst (get_result ex_backend (''paused'', ''null'') ex_kwargs ex_state) = Inl KeyError"
    by (rule g[where r = "ex_response ''paused'' (Some [(''c'', [''01''])])" and st = "''paused''"
                 and pp = None])
       (simp_all add: loads_ppcirc_def cached_result_def ex_state_def is_debug_handle_def ex_backend_def
          startswith_def DEBUG_HANDLE_PREFIX_def ex_api_def ex_kwargs_def ex_response_def n domIff)
  from a b e show ?thesis by blast
qed

section \<open>Debug handles report completion\<close>

text \<open>
  Claim C7. For every handle whose job id begins with the debug-marker prefix, and for
  every handle when the backend is in debug mode, \<open>circuit_status\<close> returns
  \<open>COMPLETED\<close> and leaves the backend as it was: no call reaches the API handler.
\<close>

theorem debug_status_completed_no_network:
  "self_MACHINE_DEBUG self \<or> startswith (fst handle) DEBUG_HANDLE_PREFIX \<Longrightarrow>
     circuit_status self handle kw s = (Inr \<lparr>cs_status = COMPLETED, cs_message = None\<rparr>, s)
     \<and> api_calls (snd (circuit_status self handle kw s)) = api_calls s"
  by (simp add: circuit_status_def is_debug_handle_def)

theorem debug_status_completed_no_network_witness:
  "circuit_status ex_backend (''_MACHINE_DEBUG_(2, 4)'', ''null'') ex_kwargs ex_state
     = (Inr \<lparr>cs_status = COMPLETED, cs_message = None\<rparr>, ex_state)
   \<and> circuit_status ex_debug_backend (''job-1'', ''null'') ex_kwargs ex_state
     = (Inr \<lparr>cs_status = COMPLETED, cs_message = None\<rparr>, ex_state)"
proof -
  have p: "startswith (fst (''_MACHINE_DEBUG_(2, 4)'', ''null'')) DEBUG_HANDLE_PREFIX"
    by (simp add: startswith_def DEBUG_HANDLE_PREFIX_def)
  have d: "self_MACHINE_DEBUG ex_debug_backend"
    by (simp add: ex_debug_backend_def)
  from debug_status_completed_no_network[of ex_backend "(''_MACHINE_DEBUG_(2, 4)'', ''null'')" ex_kwargs ex_state] p
       debug_status_completed_no_network[of ex_debug_backend "(''job-1'', ''null'')" ex_kwargs ex_state] d
  show ?thesis by simp
qed

section \<open>The batching check\<close>

lemma start_batch_unsupported:
  "start_batch self c circ n vc kw s = (Inl BatchingUnsupported, s') \<Longrightarrow>
     check_batchable self s = (Inl BatchingUnsupported, s')"
  by (auto simp: start_batch_def Let_def split: sum.splits prod.splits list.splits
      dest: process_circuits_Inl api_invoke_Inl)

lemma add_to_batch_unsupported:
  "add_to_batch self h circ n be vc kw s = (Inl BatchingUnsupported, s') \<Longrightarrow>
     check_batchable self s = (Inl BatchingUnsupported, s')"
  by (auto simp: add_to_batch_def Let_def split: sum.splits prod.splits list.splits if_splits
      dest: process_circuits_Inl)

text \<open>
  Claim C9. In debug mode, where the backend has no device descriptor, the batching
  check returns without raising, and neither \<open>start_batch\<close> nor \<open>add_to_batch\<close>
  raises \<open>BatchingUnsupported\<close>. Whenever the check, \<open>start_batch\<close> or
  \<open>add_to_batch\<close> raises \<open>BatchingUnsupported\<close>, the backend holds a fetched
  descriptor whose \<open>batching\<close> entry is not true.
\<close>

theorem batching_check_without_descriptor:
  "(self_MACHINE_DEBUG self \<and> self_backend_info s = None \<longrightarrow>
       check_batchable self s = (Inr (), s)
       \<and> fst (start_batch self c circ n vc kw s) \<noteq> Inl BatchingUnsupported
       \<and> fst (add_to_batch self h circ n be vc kw s) \<noteq> Inl BatchingUnsupported)
   \<and> (check_batchable self s = (Inl BatchingUnsupported, s')
        \<or> start_batch self c circ n vc kw s = (Inl BatchingUnsupported, s')
        \<or> add_to_batch self h circ n be vc kw s = (Inl BatchingUnsupported, s')
       \<longrightarrow> (\<exists>info. self_backend_info s' = Some info \<and> misc_batching info \<noteq> Some True))"
proof -
  have a: "check_batchable self s = (Inr (), s)"
    and b: "fst (start_batch self c circ n vc kw s) \<noteq> Inl BatchingUnsupported"
    and d: "fst (add_to_batch self h circ n be vc kw s) \<noteq> Inl BatchingUnsupported"
    if dbg: "self_MACHINE_DEBUG self" "self_backend_info s = None"
  proof -
    show a: "check_batchable self s = (Inr (), s)"
      using dbg by (rule check_batchable_debug)
    show "fst (start_batch self c circ n vc kw s) \<noteq> Inl BatchingUnsupported"
    proof
      assume "fst (start_batch self c circ n vc kw s) = Inl BatchingUnsupported"
      then obtain s' where "start_batch self c circ n vc kw s = (Inl BatchingUnsupported, s')"
        by (cases "start_batch self c circ n vc kw s") simp
      from start_batch_unsupported[OF this] a show False by simp
    qed
    show "fst (add_to_batch self h circ n be vc kw s) \<noteq> Inl BatchingUnsupported"
    proof
      assume "fst (add_to_batch self h circ n be vc kw s) = Inl BatchingUnsupported"
      then obtain s' where "add_to_batch self h circ n be vc kw s = (Inl BatchingUnsupported, s')"
        by (cases "add_to_batch self h circ n be vc kw s") simp
      from add_to_batch_unsupported[OF this] a show False by simp
    qed
  qed
  have e: "\<exists>info. self_backend_info s' = Some info \<and> misc_batching info \<noteq> Some True"
    if "check_batchable self s = (Inl BatchingUnsupported, s')
        \<or> start_batch self c circ n vc kw s = (Inl BatchingUnsupported, s')
        \<or> add_to_batch self h circ n be vc kw s = (Inl BatchingUnsupported, s')"
  proof -
    from that have "check_batchable self s = (Inl BatchingUnsupported, s')"
      by (elim disjE) (simp_all add: start_batch_unsupported add_to_batch_unsupported)
    then show ?thesis by (rule check_batchable_unsupported)
  qed
  from a b d e show ?thesis by blast
qed

theorem batching_check_without_descriptor_witness:
  "check_batchable ex_debug_backend ex_state = (Inr (), ex_state)
   \<and> fst (start_batch ex_debug_backend 500 ex_circuit (Some 10) True ex_kwargs ex_state)
         \<noteq> Inl BatchingUnsupported
   \<and> fst (check_batchable ex_backend ex_state) = Inl BatchingUnsupported
   \<and> (\<exists>info. self_backend_info (snd (check_batchable ex_backend ex_state)) = Some info
          \<and> misc_batching info \<noteq> Some True)"
proof -
  have d: "self_MACHINE_DEBUG ex_debug_backend \<and> self_backend_info ex_state = None"
    by (simp add: ex_debug_backend_def ex_state_def)
  have r: "fst (check_batchable ex_backend ex_state) = Inl BatchingUnsupported"
    by (simp add: check_batchable_def backend_info_def retrieve_backendinfo_def
        available_devices_def api_invoke_def ex_backend_def ex_state_def ex_api_def
        ex_device_def dict_to_backendinfo_def get_or_def)
  then have e: "check_batchable ex_backend ex_state
                  = (Inl BatchingUnsupported, snd (check_batchable ex_backend ex_state))"
    by (metis prod.collapse)
  from batching_check_without_descriptor
         [of ex_debug_backend ex_state 500 ex_circuit "Some 10" True ex_kwargs
             "([], [])" False "snd (check_batchable ex_backend ex_state)"] d
  have a: "check_batchable ex_debug_backend ex_state = (Inr (), ex_state)"
    and b: "fst (start_batch ex_debug_backend 500 ex_circuit (Some 10) True ex_kwargs ex_state)
         \<noteq> Inl BatchingUnsupported"
    by blast+
  from batching_check_without_descriptor
         [of ex_backend ex_state 500 ex_circuit "Some 10" True ex_kwargs
             "([], [])" False "snd (check_batchable ex_backend ex_state)"] e
  have c: "\<exists>info. self_backend_info (snd (check_batchable ex_backend ex_state)) = Some info
          \<and> misc_batching info \<noteq> Some True"
    by blast
  from a b r c show ?thesis by blast
qed

section \<open>Decoding results\<close>

lemma traverse_all_Inr:
  "(\<And>x. x \<in> set xs \<Longrightarrow> f x = Inr (g x)) \<Longrightarrow> traverse f xs = Inr (map g xs)"
  by (induction xs) auto

lemma is_bit_digit: "is_bit c \<Longrightarrow> is_digit c"
  by (auto simp: is_bit_def is_digit_def)

lemma is_bit_packbit: "is_bit c \<Longrightarrow> packbit (digit_val c) = digit_val c"
  by (auto simp: is_bit_def packbit_def digit_val_def)

lemma traverse_digits:
  "list_all is_bit a \<Longrightarrow> traverse char_to_uint8 a = Inr (map digit_val a)"
  by (rule traverse_all_Inr) (simp add: char_to_uint8_def list_all_iff is_bit_digit)

lemma np_array_wf:
  assumes "wf_register n reslist" "0 < n"
  shows "np_array_uint8 reslist = Inr (arr_of reslist)"
proof (cases reslist)
  case Nil
  with assms show ?thesis by (simp add: wf_register_def)
next
  case (Cons a as)
  have w: "reg_width (a # as) = length a" by (simp add: reg_width_def)
  from assms(1) have all: "list_all (\<lambda>b. length b = length a \<and> list_all is_bit b) (a # as)"
    unfolding wf_register_def Cons w by (rule conjunct2)
  have t: "traverse (traverse char_to_uint8) (a # as) = Inr (map (map digit_val) (a # as))"
  proof (rule traverse_all_Inr)
    fix b assume "b \<in> set (a # as)"
    with all have "list_all is_bit b" unfolding list_all_iff by blast
    then show "traverse char_to_uint8 b = Inr (map digit_val b)" by (rule traverse_digits)
  qed
  from all have l: "list_all (\<lambda>b. length b = length a) as"
    unfolding list_all_iff by simp
  show ?thesis
    unfolding Cons np_array_uint8_def arr_of_def w list.case
    by (simp only: l if_True t sum.case)
qed

lemma array_dict_wf:
  assumes "wf_payload n rd"
  shows "traverse (\<lambda>(creg, reslist).
                        case np_array_uint8 reslist of
                          Inl e \<Rightarrow> Inl e
                        | Inr a \<Rightarrow> Inr (creg, a)) rd
         = Inr (map (\<lambda>(creg, reslist). (creg, arr_of reslist)) rd)"
proof (rule traverse_all_Inr)
  fix x assume "x \<in> set rd"
  moreover obtain creg reslist where "x = (creg, reslist)" by (cases x)
  ultimately have "wf_register n reslist" and "0 < n"
    using assms by (auto simp: wf_payload_def list_all_iff)
  then have "np_array_uint8 reslist = Inr (arr_of reslist)" by (rule np_array_wf)
  then show "(case x of (creg, reslist) \<Rightarrow>
                case np_array_uint8 reslist of Inl e \<Rightarrow> Inl e | Inr a \<Rightarrow> Inr (creg, a))
             = Inr (case x of (creg, reslist) \<Rightarrow> (creg, arr_of reslist))"
    by (simp add: \<open>x = (creg, reslist)\<close>)
qed

lemma map_of_array_dict:
  "map_of (map (\<lambda>(creg, reslist). (creg, arr_of reslist)) rd) name
     = map_option arr_of (map_of rd name)"
  by (induction rd) auto

lemma dict_get_array_dict:
  assumes "name \<in> fst ` set rd"
  shows "dict_get (map (\<lambda>(creg, reslist). (creg, arr_of reslist)) rd) name
           = Inr (arr_of (reg_rows rd name))"
proof -
  from assms obtain v where "map_of rd name = Some v"
    by (metis domD dom_map_of_conv_image_fst)
  then show ?thesis
    by (simp add: dict_get_def map_of_array_dict reg_rows_def)
qed

lemma set_names_desc: "set (names_desc rd) = fst ` set rd"
  by (simp add: names_desc_def)

lemma arrays_wf:
  "traverse (dict_get (map (\<lambda>(creg, reslist). (creg, arr_of reslist)) rd)) (names_desc rd)
     = Inr (map (\<lambda>name. arr_of (reg_rows rd name)) (names_desc rd))"
  by (rule traverse_all_Inr) (simp add: dict_get_array_dict set_names_desc)

lemma zip_map_self: "zip xs (map f xs) = map (\<lambda>x. (x, f x)) xs"
  by (induction xs) auto

lemma map2_append_upt:
  assumes l: "length (r :: 'a list list) = n"
  shows "map2 (@) r (map f [0..<n]) = map (\<lambda>j. r ! j @ f j) [0..<n]"
  using l by (intro nth_equalityI) simp_all



lemma all_2d_map:
  assumes "\<And>x. x \<in> set xs \<Longrightarrow> length (rows x) = n"
  shows "all_2d n (map (\<lambda>x. Arr2 (w x) (rows x)) xs)
           = Some (sum_list (map w xs), map (\<lambda>j. concat (map (\<lambda>x. rows x ! j) xs)) [0..<n])"
  using assms
proof (induction xs)
  case Nil
  show ?case by (simp add: map_replicate_const)
next
  case (Cons x xs)
  have l: "length (rows x) = n" by (rule Cons.prems) simp
  have "\<And>y. y \<in> set xs \<Longrightarrow> length (rows y) = n" by (rule Cons.prems) simp
  then have ih: "all_2d n (map (\<lambda>x. Arr2 (w x) (rows x)) xs)
           = Some (sum_list (map w xs), map (\<lambda>j. concat (map (\<lambda>x. rows x ! j) xs)) [0..<n])"
    by (rule Cons.IH)
  have "all_2d n (map (\<lambda>x. Arr2 (w x) (rows x)) (x # xs))
          = Some (w x + sum_list (map w xs),
                  map2 (@) (rows x) (map (\<lambda>j. concat (map (\<lambda>x. rows x ! j) xs)) [0..<n]))"
    by (simp only: list.map all_2d.simps l if_True ih option.map prod.case simp_thms)
  also have "map2 (@) (rows x) (map (\<lambda>j. concat (map (\<lambda>x. rows x ! j) xs)) [0..<n])
          = map (\<lambda>j. rows x ! j @ concat (map (\<lambda>x. rows x ! j) xs)) [0..<n]"
    using l by (rule map2_append_upt)
  finally show ?case by (simp only: list.map sum_list.Cons concat.simps)
qed

lemma reg_rows_in:
  assumes "wf_payload n rd" "name \<in> fst ` set rd"
  shows "wf_register n (reg_rows rd name)"
proof -
  from assms(2) obtain v where v: "map_of rd name = Some v"
    by (metis domD dom_map_of_conv_image_fst)
  then have "(name, v) \<in> set rd" by (rule map_of_SomeD)
  with assms(1) have "wf_register n v" by (auto simp: wf_payload_def list_all_iff)
  then show ?thesis by (simp add: reg_rows_def v)
qed

lemma hstack_wf:
  assumes "wf_payload n rd"
  shows "np_hstack (map (\<lambda>name. arr_of (reg_rows rd name)) (names_desc rd))
           = Inr (Arr2 (sum_list (map (\<lambda>name. reg_width (reg_rows rd name)) (names_desc rd)))
                       (map (expected_row rd) [0..<n]))"
proof -
  let ?w = "\<lambda>name. reg_width (reg_rows rd name)"
  let ?rows = "\<lambda>name. map (map digit_val) (reg_rows rd name)"
  have len: "\<And>x. x \<in> set (names_desc rd) \<Longrightarrow> length (?rows x) = n"
    using reg_rows_in[OF assms] by (simp add: set_names_desc wf_register_def)
  have m: "map (\<lambda>name. arr_of (reg_rows rd name)) (names_desc rd)
             = map (\<lambda>x. Arr2 (?w x) (?rows x)) (names_desc rd)"
    by (simp add: arr_of_def)
  have a: "all_2d n (map (\<lambda>x. Arr2 (?w x) (?rows x)) (names_desc rd))
           = Some (sum_list (map ?w (names_desc rd)),
                   map (\<lambda>j. concat (map (\<lambda>x. ?rows x ! j) (names_desc rd))) [0..<n])"
    using len by (rule all_2d_map)
  have r: "map (\<lambda>j. concat (map (\<lambda>x. ?rows x ! j) (names_desc rd))) [0..<n]
             = map (expected_row rd) [0..<n]"
  proof (rule map_cong[OF refl])
    fix j assume "j \<in> set [0..<n]"
    then have j: "j < n" by simp
    have "map (\<lambda>x. ?rows x ! j) (names_desc rd)
            = map (\<lambda>name. map digit_val (reg_rows rd name ! j)) (names_desc rd)"
    proof (rule map_cong[OF refl])
      fix x assume "x \<in> set (names_desc rd)"
      then have "length (reg_rows rd x) = n"
        using reg_rows_in[OF assms] by (simp add: set_names_desc wf_register_def)
      then show "?rows x ! j = map digit_val (reg_rows rd x ! j)" using j by simp
    qed
    then show "concat (map (\<lambda>x. ?rows x ! j) (names_desc rd)) = expected_row rd j"
      by (simp only: expected_row_def)
  qed
  have "set (names_desc rd) \<noteq> {}"
    using assms by (simp add: set_names_desc wf_payload_def)
  then obtain x xs where ne: "names_desc rd = x # xs"
    by (cases "names_desc rd") auto
  have lx: "length (?rows x) = n" using len ne by simp
  have a': "all_2d n (Arr2 (?w x) (?rows x) # map (\<lambda>x. Arr2 (?w x) (?rows x)) xs)
           = Some (sum_list (map ?w (names_desc rd)), map (expected_row rd) [0..<n])"
    using a r by (simp only: ne list.map)
  show ?thesis
    unfolding m
    by (simp only: np_hstack_def ne list.map list.case ndarray.case lx a' option.case prod.case)
qed

lemma packbit_expected_row:
  assumes "wf_payload n rd" "j < n"
  shows "map packbit (expected_row rd j) = expected_row rd j"
proof (rule map_idI)
  fix x assume "x \<in> set (expected_row rd j)"
  then obtain name c where nm: "name \<in> set (names_desc rd)"
    and c: "c \<in> set (reg_rows rd name ! j)" and x: "x = digit_val c"
    by (auto simp: expected_row_def)
  from nm have "wf_register n (reg_rows rd name)"
    using reg_rows_in[OF assms(1)] by (simp add: set_names_desc)
  then have "list_all is_bit (reg_rows rd name ! j)"
    using assms(2) by (simp add: wf_register_def list_all_length)
  with c have "is_bit c" by (simp add: list_all_iff)
  then show "packbit x = x" unfolding x by (rule is_bit_packbit)
qed

lemma packbit_expected_rows:
  assumes "wf_payload n rd"
  shows "map (map packbit) (map (expected_row rd) [0..<n]) = map (expected_row rd) [0..<n]"
  by (rule map_idI) (auto simp: packbit_expected_row[OF assms])

lemma convert_result_wf:
  assumes "wf_payload n rd"
  shows "convert_result rd pp =
           Inr \<lparr>br_c_bits = expected_c_bits rd,
                br_shots = \<lparr>oa_width = sum_list (map (\<lambda>name. reg_width (reg_rows rd name)) (names_desc rd)),
                            oa_rows = map (expected_row rd) [0..<n]\<rparr>,
                br_ppcirc = pp\<rparr>"
proof -
  let ?ad = "map (\<lambda>(creg, reslist). (creg, arr_of reslist)) rd"
  have f: "map fst ?ad = map fst rd" by (induction rd) auto
  have n: "rev (sort (map fst ?ad)) = names_desc rd" by (simp only: f names_desc_def)
  have c: "concat (map (\<lambda>(name, a). map (\<lambda>ind. (name, ind)) (rev [0..<shape_last a]))
                    (zip (names_desc rd) (map (\<lambda>name. arr_of (reg_rows rd name)) (names_desc rd))))
             = expected_c_bits rd"
    by (simp add: zip_map_self expected_c_bits_def arr_of_def comp_def)
  show ?thesis
    unfolding convert_result_def array_dict_wf[OF assms] sum.case Let_def n arrays_wf c
      hstack_wf[OF assms] from_readouts_def ndarray.case packbit_expected_rows[OF assms]
    by (rule refl)
qed


lemma sum_list_map_insort:
  "sum_list (map f (insort x xs)) = (f x :: nat) + sum_list (map f xs)"
  by (induction xs) auto

lemma sum_list_map_sort: "sum_list (map f (sort xs)) = (sum_list (map f xs) :: nat)"
  by (induction xs) (simp_all add: sum_list_map_insort)

lemma reg_rows_distinct:
  assumes "distinct (map fst rd)" "(creg, reslist) \<in> set rd"
  shows "reg_rows rd creg = reslist"
  using assms by (simp add: reg_rows_def)

lemma map_reg_rows_keys:
  assumes "distinct (map fst rd)"
  shows "map (\<lambda>name. f (reg_rows rd name)) (map fst rd) = map (\<lambda>(creg, reslist). f reslist) rd"
proof -
  have "\<And>x. x \<in> set rd \<Longrightarrow> f (reg_rows rd (fst x)) = (case x of (creg, reslist) \<Rightarrow> f reslist)"
    using reg_rows_distinct[OF assms] by (auto split: prod.splits)
  then show ?thesis by (simp add: comp_def)
qed

lemma sum_names_desc:
  assumes "distinct (map fst rd)"
  shows "sum_list (map (\<lambda>name. f (reg_rows rd name)) (names_desc rd))
           = (sum_list (map (\<lambda>(creg, reslist). f reslist) rd) :: nat)"
proof -
  have "sum_list (map (\<lambda>name. f (reg_rows rd name)) (names_desc rd))
          = sum_list (map (\<lambda>name. f (reg_rows rd name)) (map fst rd))"
    unfolding names_desc_def rev_map[symmetric] sum_list_rev by (rule sum_list_map_sort)
  then show ?thesis by (simp only: map_reg_rows_keys[OF assms])
qed

lemma width_names_desc:
  "wf_payload n rd \<Longrightarrow>
     sum_list (map (\<lambda>name. reg_width (reg_rows rd name)) (names_desc rd)) = total_width rd"
  unfolding total_width_def by (rule sum_names_desc) (simp add: wf_payload_def)

lemma length_expected_c_bits:
  "wf_payload n rd \<Longrightarrow> length (expected_c_bits rd) = total_width rd"
  by (simp add: expected_c_bits_def length_concat comp_def width_names_desc)

lemma length_expected_row:
  assumes "wf_payload n rd" "j < n"
  shows "length (expected_row rd j) = total_width rd"
proof -
  have e: "map (\<lambda>name. length (reg_rows rd name ! j)) (names_desc rd)
          = map (\<lambda>name. reg_width (reg_rows rd name)) (names_desc rd)"
  proof (rule map_cong[OF refl])
    fix x assume "x \<in> set (names_desc rd)"
    then have "wf_register n (reg_rows rd x)"
      using reg_rows_in[OF assms(1)] by (simp add: set_names_desc)
    then show "length (reg_rows rd x ! j) = reg_width (reg_rows rd x)"
      using assms(2) by (simp add: wf_register_def list_all_length)
  qed
  have "length (expected_row rd j)
          = sum_list (map (\<lambda>name. length (reg_rows rd name ! j)) (names_desc rd))"
    by (simp add: expected_row_def length_concat comp_def)
  then show ?thesis
    by (simp only: e width_names_desc[OF assms(1)])
qed

lemma names_desc_a_b:
  assumes "distinct (map fst rd)" "set (map fst rd) = {''a'', ''b''}"
  shows "names_desc rd = [''b'', ''a'']"
proof -
  have "sort (map fst rd) = sorted_list_of_set (set (map fst rd))"
    by (simp only: sorted_list_of_set_sort_remdups distinct_remdups_id[OF assms(1)])
  also have "\<dots> = [''a'', ''b'']" unfolding assms(2) by simp
  finally show ?thesis by (simp add: names_desc_def)
qed

lemma ex_payload_wf: "wf_payload 2 ex_payload"
  by (simp add: wf_payload_def ex_payload_def wf_register_def reg_width_def is_bit_def)

lemma ex_payload_width: "total_width ex_payload = 5"
    by (simp add: total_width_def ex_payload_def reg_width_def)
lemma ex_payload_keys: "set (map fst ex_payload) = {''a'', ''b''}"
    "reg_width (reg_rows ex_payload ''a'') = 2" "reg_width (reg_rows ex_payload ''b'') = 3"
    by (simp_all add: ex_payload_def reg_rows_def reg_width_def)
lemma ex_payload_names: "names_desc ex_payload = [''b'', ''a'']"
    by (simp add: names_desc_def ex_payload_def)


lemma ex_payload_rows: "map (expected_row ex_payload) [0..<2] = [[1, 1, 0, 0, 1], [0, 0, 1, 1, 0]]"
proof -
  have u: "[0..<2] = [0, Suc 0]" by (simp add: upt_rec)
  have a: "reg_rows ex_payload ''a'' = [''01'', ''10'']" "reg_rows ex_payload ''b'' = [''110'', ''001'']"
    by (simp_all add: ex_payload_def reg_rows_def)
  have d: "digit_val CHR ''0'' = 0" "digit_val CHR ''1'' = 1"
    by (simp_all add: digit_val_def)
  show ?thesis
    unfolding u by (simp add: expected_row_def ex_payload_names a d)
qed

text \<open>
  Claim C1, as amended. For every results payload with at least one register and at
  least one shot (distinct register names, each register \<open>n\<close> bit-strings of one
  length), \<open>_convert_result\<close> returns a result whose columns are the registers in descending name order, each
  register most-significant-bit-first: the column labels are \<open>expected_c_bits\<close>, row
  \<open>j\<close> of the table is \<open>expected_row\<close> of \<open>j\<close>, and the width of the table, the number
  of labels and the length of every row are the sum of the register widths. For
  registers \<open>a\<close> of 2 bits and \<open>b\<close> of 3 bits the columns are b[2], b[1], b[0], a[1],
  a[0].
\<close>

theorem decoded_shot_table_order:
  assumes "wf_payload n resultdict"
  shows "case convert_result resultdict ppcirc of
           Inl e \<Rightarrow> False
         | Inr res \<Rightarrow>
             br_c_bits res = expected_c_bits resultdict
             \<and> oa_rows (br_shots res) = map (expected_row resultdict) [0..<n]
             \<and> oa_width (br_shots res) = total_width resultdict
             \<and> length (br_c_bits res) = total_width resultdict
             \<and> list_all (\<lambda>row. length row = total_width resultdict) (oa_rows (br_shots res))
             \<and> (set (map fst resultdict) = {''a'', ''b''}
                  \<and> reg_width (reg_rows resultdict ''a'') = 2
                  \<and> reg_width (reg_rows resultdict ''b'') = 3
                \<longrightarrow> br_c_bits res =
                      [(''b'', 2), (''b'', 1), (''b'', 0), (''a'', 1), (''a'', 0)])"
proof -
  have rows: "list_all (\<lambda>row. length row = total_width resultdict)
                (map (expected_row resultdict) [0..<n])"
    using length_expected_row[OF assms] by (simp add: list_all_iff)
  have ab: "expected_c_bits resultdict
              = [(''b'', 2), (''b'', 1), (''b'', 0), (''a'', 1), (''a'', 0)]"
    if "set (map fst resultdict) = {''a'', ''b''}"
       "reg_width (reg_rows resultdict ''a'') = 2" "reg_width (reg_rows resultdict ''b'') = 3"
  proof -
    have "names_desc resultdict = [''b'', ''a'']"
      using assms that(1) by (intro names_desc_a_b) (simp_all add: wf_payload_def)
    then show ?thesis
      by (simp add: expected_c_bits_def that(2,3) upt_rec)
  qed
  show ?thesis
    unfolding convert_result_wf[OF assms] sum.case
    using rows ab
    by (simp add: width_names_desc[OF assms] length_expected_c_bits[OF assms])
qed

theorem decoded_shot_table_order_witness:
  "wf_payload 2 ex_payload
   \<and> (\<exists>res. convert_result ex_payload None = Inr res
        \<and> br_c_bits res = [(''b'', 2), (''b'', 1), (''b'', 0), (''a'', 1), (''a'', 0)]
        \<and> oa_rows (br_shots res) = [[1, 1, 0, 0, 1], [0, 0, 1, 1, 0]]
        \<and> oa_width (br_shots res) = 5)"
proof -
  note t = decoded_shot_table_order[OF ex_payload_wf, of None]
  then obtain res where c: "convert_result ex_payload None = Inr res"
    by (cases "convert_result ex_payload None") simp_all
  from t have p: "oa_rows (br_shots res) = map (expected_row ex_payload) [0..<2]"
    "oa_width (br_shots res) = total_width ex_payload"
    "set (map fst ex_payload) = {''a'', ''b''}
                  \<and> reg_width (reg_rows ex_payload ''a'') = 2
                  \<and> reg_width (reg_rows ex_payload ''b'') = 3
                \<longrightarrow> br_c_bits res =
                      [(''b'', 2), (''b'', 1), (''b'', 0), (''a'', 1), (''a'', 0)]"
    unfolding c sum.case by blast+
  from p(3) ex_payload_keys have "br_c_bits res = [(''b'', 2), (''b'', 1), (''b'', 0), (''a'', 1), (''a'', 0)]"
    by blast
  with c p(1,2) ex_payload_wf show ?thesis
    unfolding ex_payload_rows ex_payload_width by blast
qed

text \<open>
  Claim C1 as stated covers every payload, and fails on the payload without registers
  and on a payload without shots: with nothing to stack \<open>np.hstack\<close> raises, and a
  table without rows is one-dimensional and refused; no shot table is returned.
\<close>

theorem decoded_shot_table_order_counterexample:
  "convert_result [] None = Inl ValueError
   \<and> convert_result [(''c'', [])] None = Inl ValueError"
  by (simp add: convert_result_def np_hstack_def np_array_uint8_def dict_get_def
      from_readouts_def)

section \<open>Reading debug handles back\<close>

lemma digit_cases: "d < 10 \<Longrightarrow> d \<in> {0, 1, 2, 3, 4, 5, 6, 7, 8, 9::nat}"
  by auto

lemma digit_char_props:
  assumes "d < 10"
  shows "is_digit (digit_char d)" "digit_val (digit_char d) = d"
    "digit_char d \<noteq> CHR '',''" "digit_char d \<noteq> CHR '')''" "digit_char d \<noteq> CHR ''-''"
    "d \<noteq> 0 \<Longrightarrow> digit_char d \<noteq> CHR ''0''"
  using digit_cases[OF assms]
  by (auto simp: digit_char_def is_digit_def digit_val_def)

lemma str_nat_small: "n < 10 \<Longrightarrow> str_nat n = [digit_char n]"
  by (subst str_nat.simps) simp

lemma str_nat_large: "\<not> n < 10 \<Longrightarrow> str_nat n = str_nat (n div 10) @ [digit_char (n mod 10)]"
  by (subst str_nat.simps) simp

lemma str_nat_digits: "list_all is_digit (str_nat n)"
proof (induction n rule: str_nat.induct)
  case (1 n)
  show ?case
  proof (cases "n < 10")
    case True
    then show ?thesis by (simp add: str_nat_small digit_char_props)
  next
    case False
    then show ?thesis using 1 by (simp add: str_nat_large digit_char_props)
  qed
qed

lemma str_nat_nonempty: "str_nat n \<noteq> []"
  by (cases "n < 10") (simp_all add: str_nat_small str_nat_large)

lemma str_nat_hd: "0 < n \<Longrightarrow> hd (str_nat n) \<noteq> CHR ''0''"
proof (induction n rule: str_nat.induct)
  case (1 n)
  show ?case
  proof (cases "n < 10")
    case True
    then show ?thesis using "1.prems" by (simp add: str_nat_small digit_char_props)
  next
    case False
    then have "0 < n div 10" by simp
    with 1 False have "hd (str_nat (n div 10)) \<noteq> CHR ''0''" by simp
    then show ?thesis using False by (simp add: str_nat_large str_nat_nonempty)
  qed
qed

lemma str_nat_value: "foldl (\<lambda>acc c. 10 * acc + digit_val c) 0 (str_nat n) = n"
proof (induction n rule: str_nat.induct)
  case (1 n)
  show ?case
  proof (cases "n < 10")
    case True
    then show ?thesis by (simp add: str_nat_small digit_char_props)
  next
    case False
    then show ?thesis using 1 by (simp add: str_nat_large digit_char_props)
  qed
qed

lemma parse_nat_str_nat: "parse_nat (str_nat n) = Some n"
proof -
  have "length (str_nat n) = 1 \<or> hd (str_nat n) \<noteq> CHR ''0''"
  proof (cases "n = 0")
    case True
    then show ?thesis by (simp add: str_nat_small)
  next
    case False
    then show ?thesis using str_nat_hd[of n] by simp
  qed
  then show ?thesis
    unfolding parse_nat_def
    by (simp only: str_nat_nonempty str_nat_digits str_nat_value simp_thms if_True)
qed

lemma str_nat_no_minus: "hd (str_nat n) \<noteq> CHR ''-''"
proof -
  obtain c cs where e: "str_nat n = c # cs" using str_nat_nonempty[of n] by (cases "str_nat n") auto
  with str_nat_digits[of n] have "is_digit c" by simp
  then show ?thesis by (auto simp: e is_digit_def)
qed

lemma parse_int_str_int: "parse_int (str_int i) = Some i"
proof (cases "i < 0")
  case True
  then show ?thesis by (simp add: str_int_def parse_int_def parse_nat_str_nat)
next
  case False
  obtain c cs where e: "str_nat (nat i) = c # cs"
    using str_nat_nonempty[of "nat i"] by (cases "str_nat (nat i)") auto
  have "c \<noteq> CHR ''-''" using str_nat_no_minus[of "nat i"] by (simp add: e)
  moreover have "parse_nat (c # cs) = Some (nat i)" using parse_nat_str_nat[of "nat i"] by (simp add: e)
  ultimately show ?thesis using False by (simp add: str_int_def parse_int_def e)
qed

lemma str_int_chars: "x \<in> set (str_int i) \<Longrightarrow> x \<noteq> CHR '','' \<and> x \<noteq> CHR '')''"
proof -
  assume "x \<in> set (str_int i)"
  then have "x = CHR ''-'' \<or> is_digit x"
    using str_nat_digits by (auto simp: str_int_def list_all_iff split: if_splits)
  then show ?thesis by (auto simp: is_digit_def)
qed

lemma takeWhile_stop:
  "(\<And>x. x \<in> set xs \<Longrightarrow> x \<noteq> c) \<Longrightarrow> takeWhile (\<lambda>x. x \<noteq> c) (xs @ c # ys) = xs"
  by (induction xs) auto

lemma dropWhile_stop:
  "(\<And>x. x \<in> set xs \<Longrightarrow> x \<noteq> c) \<Longrightarrow> dropWhile (\<lambda>x. x \<noteq> c) (xs @ c # ys) = c # ys"
  by (induction xs) auto

lemma literal_eval_str_tuple2: "literal_eval_pair (str_tuple2 a b) = Inr (a, b)"
proof -
  let ?tail = "CHR '' '' # str_int b @ [CHR '')'']"
  let ?rest = "str_int a @ CHR '','' # ?tail"
  have ca: "\<And>x. x \<in> set (str_int a) \<Longrightarrow> x \<noteq> CHR '',''"
    and cb: "\<And>x. x \<in> set (str_int b) \<Longrightarrow> x \<noteq> CHR '')''"
    using str_int_chars by blast+
  have ta: "takeWhile (\<lambda>x. x \<noteq> CHR '','') ?rest = str_int a"
    using ca by (rule takeWhile_stop)
  have da: "dropWhile (\<lambda>x. x \<noteq> CHR '','') ?rest = CHR '','' # ?tail"
    using ca by (rule dropWhile_stop)
  have tb: "takeWhile (\<lambda>x. x \<noteq> CHR '')'') (str_int b @ [CHR '')'']) = str_int b"
    using cb by (rule takeWhile_stop)
  have db: "dropWhile (\<lambda>x. x \<noteq> CHR '')'') (str_int b @ [CHR '')'']) = [CHR '')'']"
    using cb by (rule dropWhile_stop)
  have s: "str_tuple2 a b = CHR ''('' # ?rest" by (simp add: str_tuple2_def)
  have "literal_eval_pair (CHR ''('' # ?rest) = Inr (a, b)"
    unfolding literal_eval_pair_def list.case Let_def ta da
    by (simp add: tb db parse_int_str_int)
  then show ?thesis by (simp only: s)
qed

lemma literal_eval_str_tuple2_env: "literal_eval self (str_tuple2 a b) = LitTwoInts a b"
  by (simp add: literal_eval_def literal_eval_str_tuple2)

lemma process_loop_debug:
  assumes "self_MACHINE_DEBUG self"
  shows "process_loop self kw m cns hs s = (Inr hs', s') \<Longrightarrow>
           s' = s \<and> hs' = hs @ map (\<lambda>(circ, n). debug_handle kw circ n) cns"
proof (induction cns arbitrary: hs)
  case Nil
  then show ?case by simp
next
  case (Cons cn rest)
  obtain circ n where cn: "cn = (circ, n)" by (cases cn)
  from Cons.prems assms
  have "process_loop self kw m rest (hs @ [debug_handle kw circ n]) s = (Inr hs', s')"
    unfolding cn by (simp add: Let_def debug_handle_def split: if_splits option.splits)
  from Cons.IH[OF this] show ?case by (simp add: cn)
qed

lemma check_all_circuits_debug:
  "self_MACHINE_DEBUG self \<Longrightarrow> snd (check_all_circuits self cs s) = s"
proof (induction cs)
  case Nil
  then show ?case by simp
next
  case (Cons c cs)
  then show ?case
    by (simp add: required_predicates_def gate_set_def Let_def)
qed

lemma get_n_shots_as_list_Inr:
  "get_n_shots_as_list n_shots k = Inr ns \<Longrightarrow> length ns = k \<and> list_all (\<lambda>n. 0 < n) ns"
  by (auto simp: get_n_shots_as_list_def validate_n_shots_def get_or_def list_all_iff
      split: n_shots_arg.splits if_splits option.splits)

lemma process_circuits_debug:
  assumes "self_MACHINE_DEBUG self"
    and "process_circuits self circuits n_shots valid_check kw s = (Inr hs, s')"
  shows "s' = s \<and> (\<exists>ns. get_n_shots_as_list n_shots (length circuits) = Inr ns
           \<and> hs = map (\<lambda>(circ, n). debug_handle kw circ n) (zip circuits ns))"
proof -
  from assms(2) obtain ns where ns: "get_n_shots_as_list n_shots (length circuits) = Inr ns"
    by (cases "get_n_shots_as_list n_shots (length circuits)") (simp_all add: process_circuits_def)
  let ?chk = "if valid_check then check_all_circuits self circuits s else (Inr (), s)"
  have c: "snd ?chk = s" using assms(1) by (simp add: check_all_circuits_debug)
  from assms(2) have "fst ?chk = Inr ()"
    by (cases ?chk; cases "fst ?chk") (auto simp: process_circuits_def ns)
  with c have u: "?chk = (Inr (), s)" by (metis prod.collapse)
  from assms(2) have "process_loop self kw (case self_backend_info s of None \<Rightarrow> None | Some i \<Rightarrow> misc_n_shots i)
          (zip circuits ns) [] s = (Inr hs, s')"
    unfolding process_circuits_def ns sum.case u prod.case backend_info_debug[OF assms(1)] Let_def
    by simp
  from process_loop_debug[OF assms(1) this] ns show ?thesis by simp
qed

lemma zero_payload_wf:
  "0 < k \<Longrightarrow> wf_payload k [(''c'', replicate k (replicate w CHR ''0''))]"
  by (cases k) (simp_all add: wf_payload_def wf_register_def reg_width_def is_bit_def list_all_iff)

lemma convert_zero_payload:
  assumes "0 < k"
  shows "convert_result [(''c'', replicate k (replicate w CHR ''0''))] pp = Inr (zero_table k w pp)"
proof -
  let ?rd = "[(''c'', replicate k (replicate w CHR ''0''))]"
  have rr: "reg_rows ?rd ''c'' = replicate k (replicate w CHR ''0'')" by (simp add: reg_rows_def)
  have rw: "reg_width (replicate k (replicate w CHR ''0'')) = w"
    using assms by (cases k) (simp_all add: reg_width_def)
  have nd: "names_desc ?rd = [''c'']" by (simp add: names_desc_def)
  have cb: "expected_c_bits ?rd = map (\<lambda>ind. (''c'', ind)) (rev [0..<w])"
    by (simp add: expected_c_bits_def nd rr rw)
  have d0: "digit_val CHR ''0'' = 0" by (simp add: digit_val_def)
  have er: "map (expected_row ?rd) [0..<k] = replicate k (replicate w 0)"
    by (rule nth_equalityI) (simp_all add: expected_row_def nd rr d0)
  show ?thesis
    unfolding convert_result_wf[OF zero_payload_wf[OF assms]] zero_table_def cb er nd
    by (simp add: rr rw)
qed

lemma drop_debug_prefix: "drop (length DEBUG_HANDLE_PREFIX) (DEBUG_HANDLE_PREFIX @ t) = t"
  by simp

lemma startswith_debug_prefix: "startswith (DEBUG_HANDLE_PREFIX @ t) DEBUG_HANDLE_PREFIX"
  by (simp add: startswith_def)

lemma get_result_debug_handle:
  assumes "cached_result s (debug_handle kw circ n) = None" "0 < n"
  shows "get_result self (debug_handle kw circ n) kw' s
           = (case loads_ppcirc self (snd (debug_handle kw circ n)) of
                Inl e \<Rightarrow> (Inl e, s)
              | Inr ppcirc \<Rightarrow> (Inr (zero_table (nat n) (c_n_qubits circ) ppcirc), s))"
proof -
  have f: "fst (debug_handle kw circ n) = DEBUG_HANDLE_PREFIX @ str_tuple2 (int (c_n_qubits circ)) n"
    by (simp add: debug_handle_def)
  have d: "is_debug_handle self (fst (debug_handle kw circ n))"
    unfolding f is_debug_handle_def using startswith_debug_prefix by simp
  have k: "0 < nat n" using assms(2) by simp
  have l: "literal_eval self (drop (length DEBUG_HANDLE_PREFIX) (fst (debug_handle kw circ n)))
             = LitTwoInts (int (c_n_qubits circ)) n"
    unfolding f drop_debug_prefix by (rule literal_eval_str_tuple2_env)
  show ?thesis
    unfolding get_result_def assms(1) option.case Let_def
    by (simp only: d if_True l literal.case nat_int convert_zero_payload[OF k])
qed

lemma loads_ppcirc_null: "loads_ppcirc self ''null'' = Inr None"
  by (simp add: loads_ppcirc_def)

text \<open>
  Claim C2, as amended. For every debug-mode submission that returns handles, the
  backend is left as it was, and fetching the result of a handle for which nothing is
  cached leaves it as it was too and returns, once the handle's second component is
  read back, the table of zeros with as many rows as the shots requested for that
  circuit and as many columns as the circuit has qubits (not classical bits),
  whatever else the circuit contains. Without post-processing the second component is
  \<open>null\<close> and always reads back.
\<close>

theorem debug_result_zero_table:
  assumes "self_MACHINE_DEBUG self"
    and "process_circuits self circuits n_shots valid_check kw s = (Inr hs, s')"
    and "i < length circuits"
    and "cached_result s (hs ! i) = None"
  shows "s' = s \<and> length hs = length circuits
     \<and> (case get_n_shots_as_list n_shots (length circuits) of
           Inl e \<Rightarrow> False
         | Inr ns \<Rightarrow>
             0 < ns ! i
             \<and> get_result self (hs ! i) kw' s' =
                 (case loads_ppcirc self (snd (hs ! i)) of
                    Inl e \<Rightarrow> (Inl e, s')
                  | Inr ppcirc \<Rightarrow>
                      (Inr (zero_table (nat (ns ! i)) (c_n_qubits (circuits ! i)) ppcirc), s'))
             \<and> (\<not> get_or (kw_postprocess kw) False \<longrightarrow>
                   get_result self (hs ! i) kw' s' =
                     (Inr (zero_table (nat (ns ! i)) (c_n_qubits (circuits ! i)) None), s')))"
proof -
  from process_circuits_debug[OF assms(1,2)] obtain ns
    where s: "s' = s" and ns: "get_n_shots_as_list n_shots (length circuits) = Inr ns"
      and hs: "hs = map (\<lambda>(circ, n). debug_handle kw circ n) (zip circuits ns)"
    by blast
  from get_n_shots_as_list_Inr[OF ns] have len: "length ns = length circuits"
    and pos: "list_all (\<lambda>n. 0 < n) ns" by simp_all
  from pos assms(3) len have p: "0 < ns ! i" by (simp add: list_all_length)
  have h: "hs ! i = debug_handle kw (circuits ! i) (ns ! i)"
    using assms(3) len by (simp add: hs)
  have g: "get_result self (hs ! i) kw' s =
                 (case loads_ppcirc self (snd (hs ! i)) of
                    Inl e \<Rightarrow> (Inl e, s)
                  | Inr ppcirc \<Rightarrow>
                      (Inr (zero_table (nat (ns ! i)) (c_n_qubits (circuits ! i)) ppcirc), s))"
    unfolding h using assms(4) p unfolding h by (rule get_result_debug_handle)
  have n: "loads_ppcirc self (snd (hs ! i)) = Inr None" if "\<not> get_or (kw_postprocess kw) False"
    using that by (simp add: h debug_handle_def dumps_ppcirc_def loads_ppcirc_null)
  have l: "length hs = length circuits" by (simp add: hs len)
  show ?thesis
    unfolding ns sum.case s using p g n l by simp
qed


lemma ex_debug_handle_eq: "debug_handle ex_kwargs ex_circuit 4 = ex_debug_handle"
  by (simp add: debug_handle_def ex_debug_handle_def DEBUG_HANDLE_PREFIX_def str_tuple2_def
      str_int_def str_nat_small digit_char_def ex_circuit_def ex_kwargs_def get_or_def
      dumps_ppcirc_def)

lemma ex_debug_submission:
  "process_circuits ex_debug_backend [ex_circuit] (ShotsInt 4) True ex_kwargs ex_state
     = (Inr [ex_debug_handle], ex_state)"
proof -
  have v: "list_all (\<lambda>pred. verify pred ex_circuit) [NoSymbolsPredicate, GateSetPredicate GATE_SET]"
    by (simp add: ex_circuit_def GATE_SET_def)
  have d: "self_MACHINE_DEBUG ex_debug_backend" by (simp add: ex_debug_backend_def)
  have c: "check_all_circuits ex_debug_backend [ex_circuit] ex_state = (Inr (), ex_state)"
    using v d by (simp add: required_predicates_def gate_set_def Let_def)
  have b: "backend_info ex_debug_backend ex_state = (Inr None, ex_state)"
    using d by (simp add: backend_info_def ex_state_def)
  have l: "process_loop ex_debug_backend ex_kwargs None [(ex_circuit, 4)] [] ex_state
             = (Inr [debug_handle ex_kwargs ex_circuit 4], ex_state)"
    using d by (simp add: exceeds_max_def Let_def debug_handle_def ex_kwargs_def get_or_def
        ex_circuit_def)
  have n: "get_n_shots_as_list (ShotsInt 4) (length [ex_circuit]) = Inr [4]"
    by (simp add: get_n_shots_as_list_def validate_n_shots_def)
  have z: "zip [ex_circuit] [4::int] = [(ex_circuit, 4)]" by simp
  show ?thesis
    unfolding process_circuits_def
    by (simp only: n sum.case if_True c prod.case b option.case Let_def z l ex_debug_handle_eq)
qed

lemma ex_debug_fetch:
  "get_result ex_debug_backend ex_debug_handle ex_kwargs ex_state
     = (Inr (zero_table 4 2 None), ex_state)"
proof -
  have c: "cached_result ex_state (debug_handle ex_kwargs ex_circuit 4) = None"
    by (simp add: cached_result_def ex_state_def)
  have n: "loads_ppcirc ex_debug_backend (snd ex_debug_handle) = Inr None"
    by (simp add: ex_debug_handle_def loads_ppcirc_def)
  have q: "c_n_qubits ex_circuit = 2" by (simp add: ex_circuit_def)
  from get_result_debug_handle[OF c, of ex_debug_backend ex_kwargs]
  show ?thesis unfolding ex_debug_handle_eq n sum.case q by simp
qed

theorem debug_result_zero_table_witness:
  "self_MACHINE_DEBUG ex_debug_backend
   \<and> process_circuits ex_debug_backend [ex_circuit] (ShotsInt 4) True ex_kwargs ex_state
       = (Inr [ex_debug_handle], ex_state)
   \<and> cached_result ex_state ex_debug_handle = None
   \<and> get_result ex_debug_backend ex_debug_handle ex_kwargs ex_state
       = (Inr (zero_table 4 2 None), ex_state)"
proof -
  have d: "self_MACHINE_DEBUG ex_debug_backend" by (simp add: ex_debug_backend_def)
  have c: "cached_result ex_state ([ex_debug_handle] ! 0) = None"
    by (simp add: cached_result_def ex_state_def)
  have i: "0 < length [ex_circuit]" by simp
  have k: "\<not> get_or (kw_postprocess ex_kwargs) False" by (simp add: ex_kwargs_def get_or_def)
  have q: "c_n_qubits ex_circuit = 2" by (simp add: ex_circuit_def)
  have n: "get_n_shots_as_list (ShotsInt 4) (length [ex_circuit]) = Inr [4]"
    by (simp add: get_n_shots_as_list_def validate_n_shots_def)
  from debug_result_zero_table[OF d ex_debug_submission i c, of ex_kwargs]
  have "\<not> get_or (kw_postprocess ex_kwargs) False \<longrightarrow>
          get_result ex_debug_backend ([ex_debug_handle] ! 0) ex_kwargs ex_state =
            (Inr (zero_table (nat ([4] ! 0)) (c_n_qubits ([ex_circuit] ! 0)) None), ex_state)"
    unfolding n sum.case by blast
  with k q have "get_result ex_debug_backend ex_debug_handle ex_kwargs ex_state
       = (Inr (zero_table 4 2 None), ex_state)"
    by simp
  with d ex_debug_submission c show ?thesis by simp
qed

text \<open>
  Claim C2 as stated sizes the table by the classical bits. A circuit of 2 qubits with
  a 3-bit register, submitted in debug mode for 4 shots, comes back as 4 rows of 2
  columns.
\<close>

theorem debug_result_zero_table_counterexample:
  "process_circuits ex_debug_backend [ex_circuit] (ShotsInt 4) True ex_kwargs ex_state
     = (Inr [ex_debug_handle], ex_state)
   \<and> n_bits ex_circuit = 3
   \<and> get_result ex_debug_backend ex_debug_handle ex_kwargs ex_state
       = (Inr \<lparr>br_c_bits = [(''c'', 1), (''c'', 0)],
               br_shots = \<lparr>oa_width = 2, oa_rows = [[0, 0], [0, 0], [0, 0], [0, 0]]\<rparr>,
               br_ppcirc = None\<rparr>, ex_state)"
proof -
  have z: "zero_table 4 2 None
             = \<lparr>br_c_bits = [(''c'', 1), (''c'', 0)],
               br_shots = \<lparr>oa_width = 2, oa_rows = [[0, 0], [0, 0], [0, 0], [0, 0]]\<rparr>,
               br_ppcirc = None\<rparr>"
    by (simp add: zero_table_def upt_rec numeral_eq_Suc)
  have b: "n_bits ex_circuit = 3" by (simp add: n_bits_def ex_circuit_def)
  from ex_debug_submission ex_debug_fetch b show ?thesis unfolding z by simp
qed

section \<open>Fetching results\<close>

lemma traverse_Inl: "traverse f xs = Inl e \<Longrightarrow> \<exists>x\<in>set xs. f x = Inl e"
  by (induction xs) (auto split: sum.splits)

lemma char_to_uint8_Inl: "char_to_uint8 c = Inl e \<Longrightarrow> e = ValueError"
  by (simp add: char_to_uint8_def split: if_splits)

lemma np_array_uint8_Inl: "np_array_uint8 reslist = Inl e \<Longrightarrow> e = ValueError"
  by (auto simp: np_array_uint8_def split: list.splits if_splits sum.splits
      dest!: traverse_Inl dest: char_to_uint8_Inl)

lemma np_hstack_Inl: "np_hstack arrs = Inl e \<Longrightarrow> e = ValueError"
  by (auto simp: np_hstack_def split: list.splits ndarray.splits option.splits)

lemma convert_result_Inl:
  assumes "convert_result rd pp = Inl e"
  shows "e = ValueError \<or> e = KeyError"
proof -
  from assms show ?thesis
    unfolding convert_result_def Let_def
    by (auto simp: dict_get_def from_readouts_def
        split: sum.splits option.splits ndarray.splits
        dest!: traverse_Inl dest: np_array_uint8_Inl np_hstack_Inl)
qed

lemma get_result_retrieved:
  assumes "cached_result s handle = None"
    and "\<not> is_debug_handle self (fst handle)"
    and "loads_ppcirc self (snd handle) = Inr ppcirc"
    and "on_retrieve_job (self_api_handler self) (api_calls s) (fst handle)
           (kw_timeout kw) (kw_wait kw) (kw_use_websocket kw) = Inr (Some job_retrieve)"
    and "parse_status job_retrieve = Inr circ_status"
  shows "get_result self handle kw s =
           (let s1 = s\<lparr>api_calls := api_calls s @
                      [RetrieveJob (fst handle) (kw_timeout kw) (kw_wait kw) (kw_use_websocket kw)]\<rparr>
            in if cs_status circ_status \<notin> {COMPLETED, CANCELLED} then (Inl GetResultFailed, s1)
               else (case r_results job_retrieve of
                       None \<Rightarrow> (Inl GetResultFailed, s1)
                     | Some res \<Rightarrow>
                         (case convert_result res ppcirc of
                            Inl e \<Rightarrow> (Inl e, s1)
                          | Inr backres \<Rightarrow> (Inr backres, update_cache_result handle backres s1))))"
  using assms
  by (simp add: get_result_def Let_def retrieve_job_def api_invoke_def)

lemma cached_after_update:
  "cached_result (update_cache_result handle res s) handle = Some res"
  by (simp add: cached_result_def update_cache_result_def)

text \<open>
  Claim C3, as amended. For every non-debug handle whose result is not yet cached and
  whose second component reads back, when the job retrieval returns a record whose
  status is one of the six known strings: fetching the result raises
  \<open>GetResultFailed\<close> if and only if the status is neither \<open>COMPLETED\<close> nor
  \<open>CANCELLED\<close> or the record has no results payload. Otherwise the payload is decoded:
  the decoded result is returned and stored in the cache, or, when decoding raises,
  that error is raised and the cache is left as it was.
\<close>

theorem get_result_failed_iff:
  assumes "cached_result s handle = None"
    and "\<not> is_debug_handle self (fst handle)"
    and "loads_ppcirc self (snd handle) = Inr ppcirc"
    and "on_retrieve_job (self_api_handler self) (api_calls s) (fst handle)
           (kw_timeout kw) (kw_wait kw) (kw_use_websocket kw) = Inr (Some job_retrieve)"
    and "parse_status job_retrieve = Inr circ_status"
  shows "(fst (get_result self handle kw s) = Inl GetResultFailed
            \<longleftrightarrow> cs_status circ_status \<notin> {COMPLETED, CANCELLED} \<or> r_results job_retrieve = None)
     \<and> (\<forall>res. cs_status circ_status \<in> {COMPLETED, CANCELLED} \<and> r_results job_retrieve = Some res
            \<longrightarrow> (case convert_result res ppcirc of
                   Inl e \<Rightarrow>
                     fst (get_result self handle kw s) = Inl e
                     \<and> self_cache (snd (get_result self handle kw s)) = self_cache s
                 | Inr backres \<Rightarrow>
                     fst (get_result self handle kw s) = Inr backres
                     \<and> cached_result (snd (get_result self handle kw s)) handle = Some backres))"
proof -
  note g = get_result_retrieved[OF assms]
  have a: "fst (get_result self handle kw s) = Inl GetResultFailed
            \<longleftrightarrow> cs_status circ_status \<notin> {COMPLETED, CANCELLED} \<or> r_results job_retrieve = None"
  proof (cases "cs_status circ_status \<notin> {COMPLETED, CANCELLED} \<or> r_results job_retrieve = None")
    case True
    then show ?thesis unfolding g by (auto simp: Let_def)
  next
    case False
    then obtain res where r: "r_results job_retrieve = Some res"
      and c: "cs_status circ_status \<in> {COMPLETED, CANCELLED}" by auto
    have "fst (get_result self handle kw s) \<noteq> Inl GetResultFailed"
    proof (cases "convert_result res ppcirc")
      case (Inl e)
      with convert_result_Inl[OF Inl] show ?thesis
        unfolding g using r c by (auto simp: Let_def)
    next
      case (Inr backres)
      then show ?thesis unfolding g using r c by (auto simp: Let_def)
    qed
    with False show ?thesis by simp
  qed
  have b: "case convert_result res ppcirc of
                   Inl e \<Rightarrow>
                     fst (get_result self handle kw s) = Inl e
                     \<and> self_cache (snd (get_result self handle kw s)) = self_cache s
                 | Inr backres \<Rightarrow>
                     fst (get_result self handle kw s) = Inr backres
                     \<and> cached_result (snd (get_result self handle kw s)) handle = Some backres"
    if "cs_status circ_status \<in> {COMPLETED, CANCELLED}" "r_results job_retrieve = Some res" for res
    unfolding g using that
    by (auto simp: Let_def cached_after_update split: sum.splits)
  from a b show ?thesis by blast
qed

theorem get_result_failed_iff_witness:
  "fst (get_result ex_backend (''completed'', ''null'') ex_kwargs ex_state)
     = Inr \<lparr>br_c_bits = [(''c'', 1), (''c'', 0)],
            br_shots = \<lparr>oa_width = 2, oa_rows = [[0, 1]]\<rparr>, br_ppcirc = None\<rparr>
   \<and> cached_result (snd (get_result ex_backend (''completed'', ''null'') ex_kwargs ex_state))
        (''completed'', ''null'')
       = Some \<lparr>br_c_bits = [(''c'', 1), (''c'', 0)],
              br_shots = \<lparr>oa_width = 2, oa_rows = [[0, 1]]\<rparr>, br_ppcirc = None\<rparr>
   \<and> fst (get_result ex_backend (''failed'', ''null'') ex_kwargs ex_state) = Inl GetResultFailed"
proof -
  let ?res = "\<lparr>br_c_bits = [(''c'', 1), (''c'', 0)],
            br_shots = \<lparr>oa_width = 2, oa_rows = [[0, 1]]\<rparr>, br_ppcirc = None\<rparr>"
  have c: "\<And>j. cached_result ex_state (j, ''null'') = None"
    by (simp add: cached_result_def ex_state_def)
  have d: "\<not> is_debug_handle ex_backend (fst (''completed'', ''null''))"
    "\<not> is_debug_handle ex_backend (fst (''failed'', ''null''))"
    by (simp_all add: is_debug_handle_def ex_backend_def startswith_def DEBUG_HANDLE_PREFIX_def)
  have l: "\<And>j. loads_ppcirc ex_backend (snd (j, ''null'')) = Inr None"
    by (simp add: loads_ppcirc_def)
  have r: "\<And>j. on_retrieve_job (self_api_handler ex_backend) (api_calls ex_state) (fst (j, ''null''))
           (kw_timeout ex_kwargs) (kw_wait ex_kwargs) (kw_use_websocket ex_kwargs)
           = Inr (Some (ex_response j (Some [(''c'', [''01''])])))"
    by (simp add: ex_backend_def ex_api_def)
  obtain m1 where p1: "parse_status (ex_response ''completed'' (Some [(''c'', [''01''])]))
             = Inr \<lparr>cs_status = COMPLETED, cs_message = m1\<rparr>"
    by (simp add: parse_status_def ex_response_def STATUS_MAP_def)
  obtain m2 where p2: "parse_status (ex_response ''failed'' (Some [(''c'', [''01''])]))
             = Inr \<lparr>cs_status = ERROR, cs_message = m2\<rparr>"
    by (simp add: parse_status_def ex_response_def STATUS_MAP_def)
  have w: "wf_payload 1 [(''c'', [''01''])]"
    by (simp add: wf_payload_def wf_register_def reg_width_def is_bit_def)
  have v: "convert_result [(''c'', [''01''])] None = Inr ?res"
    unfolding convert_result_wf[OF w]
    by (simp add: expected_c_bits_def expected_row_def names_desc_def reg_rows_def reg_width_def
        digit_val_def upt_rec numeral_eq_Suc)
  from get_result_failed_iff[OF c d(1) l r p1]
  have "case convert_result [(''c'', [''01''])] None of
                   Inl e \<Rightarrow>
                     fst (get_result ex_backend (''completed'', ''null'') ex_kwargs ex_state) = Inl e
                     \<and> self_cache (snd (get_result ex_backend (''completed'', ''null'') ex_kwargs ex_state))
                         = self_cache ex_state
                 | Inr backres \<Rightarrow>
                     fst (get_result ex_backend (''completed'', ''null'') ex_kwargs ex_state) = Inr backres
                     \<and> cached_result (snd (get_result ex_backend (''completed'', ''null'') ex_kwargs ex_state))
                          (''completed'', ''null'') = Some backres"
    by (simp add: ex_response_def)
  then have a: "fst (get_result ex_backend (''completed'', ''null'') ex_kwargs ex_state) = Inr ?res
     \<and> cached_result (snd (get_result ex_backend (''completed'', ''null'') ex_kwargs ex_state))
          (''completed'', ''null'') = Some ?res"
    unfolding v sum.case .
  from get_result_failed_iff[OF c d(2) l r p2]
  have b: "fst (get_result ex_backend (''failed'', ''null'') ex_kwargs ex_state) = Inl GetResultFailed"
    by simp
  from a b show ?thesis by simp
qed

text \<open>
  Claim C3 as stated promises the decoded result whenever the job is completed and
  carries a results payload. A completed job whose payload has no registers raises
  \<open>ValueError\<close> from the decoding instead: nothing is returned.
\<close>

theorem get_result_failed_iff_counterexample:
  "cached_result ex_state (''job-1'', ''null'') = None
   \<and> \<not> is_debug_handle (ex_backend_job (ex_response ''completed'' (Some []))) ''job-1''
   \<and> map_sum id cs_status (parse_status (ex_response ''completed'' (Some []))) = Inr COMPLETED
   \<and> r_results (ex_response ''completed'' (Some [])) = Some []
   \<and> fst (get_result (ex_backend_job (ex_response ''completed'' (Some []))) (''job-1'', ''null'')
            ex_kwargs ex_state) = Inl ValueError"
  by (simp add: cached_result_def ex_state_def is_debug_handle_def ex_backend_job_def
      ex_backend_def startswith_def DEBUG_HANDLE_PREFIX_def parse_status_def ex_response_def
      STATUS_MAP_def get_result_def loads_ppcirc_def retrieve_job_def api_invoke_def
      ex_api_job_def ex_api_def ex_kwargs_def Let_def convert_result_def np_hstack_def)

section \<open>Status polling after an API error\<close>

lemma update_cache_result_calls: "api_calls (update_cache_result handle res s) = api_calls s"
  by (simp add: update_cache_result_def)

lemma circuit_status_relogin:
  assumes "\<not> is_debug_handle self (fst handle)"
    and "on_retrieve_job_status (self_api_handler self) (api_calls s) (fst handle)
           (get_or (kw_use_websocket kw) True) = Inl QuantinuumAPIError"
  shows "circuit_status self handle kw s =
     (let s1 = s\<lparr>api_calls := api_calls s @ [status_query handle kw]\<rparr> in
      case api_invoke Login (on_login (self_api_handler self)) s1 of
        (Inl e, s2) \<Rightarrow> (Inl e, s2)
      | (Inr u, s2) \<Rightarrow>
          (case api_invoke (status_query handle kw)
                  (\<lambda>h. on_retrieve_job_status (self_api_handler self) h (fst handle)
                          (get_or (kw_use_websocket kw) True)) s2 of
             (Inl e, s3) \<Rightarrow> (Inl e, s3)
           | (Inr None, s3) \<Rightarrow> (Inl RuntimeError, s3)
           | (Inr (Some response), s3) \<Rightarrow>
               (case parse_status response of
                  Inl e \<Rightarrow> (Inl e, s3)
                | Inr circ_status \<Rightarrow>
                    if cs_status circ_status = COMPLETED
                    then (case r_results response of
                            None \<Rightarrow> (Inr circ_status, s3)
                          | Some results \<Rightarrow>
                              (case loads_ppcirc self (snd handle) of
                                 Inl e \<Rightarrow> (Inl e, s3)
                               | Inr ppcirc \<Rightarrow>
                                   (case convert_result results ppcirc of
                                      Inl e \<Rightarrow> (Inl e, s3)
                                    | Inr res \<Rightarrow>
                                        (Inr circ_status, update_cache_result handle res s3))))
                    else (Inr circ_status, s3))))"
  using assms
  unfolding circuit_status_def Let_def status_query_def
  by (simp add: api_invoke_def split: sum.splits prod.splits)

text \<open>
  Claim C4, as amended. For every non-debug handle, if the status query raises
  \<open>QuantinuumAPIError\<close>, \<open>circuit_status\<close> makes exactly one login attempt. If the
  login raises, that error propagates and the query is not retried. If the login
  returns, the query is retried exactly once, so that the calls made are the query,
  the login and the query again; and if the retried query raises, that error
  propagates.
\<close>

theorem status_one_login_one_retry:
  assumes "\<not> is_debug_handle self (fst handle)"
    and "on_retrieve_job_status (self_api_handler self) (api_calls s) (fst handle)
           (get_or (kw_use_websocket kw) True) = Inl QuantinuumAPIError"
  shows "case on_login (self_api_handler self) (api_calls s @ [status_query handle kw]) of
           Inl e \<Rightarrow>
             circuit_status self handle kw s =
               (Inl (Raised e), s\<lparr>api_calls := api_calls s @ [status_query handle kw, Login]\<rparr>)
         | Inr u \<Rightarrow>
             api_calls (snd (circuit_status self handle kw s)) =
               api_calls s @ [status_query handle kw, Login, status_query handle kw]
             \<and> (case on_retrieve_job_status (self_api_handler self)
                        (api_calls s @ [status_query handle kw, Login]) (fst handle)
                        (get_or (kw_use_websocket kw) True) of
                  Inl e \<Rightarrow>
                    circuit_status self handle kw s =
                      (Inl (Raised e),
                       s\<lparr>api_calls := api_calls s @
                            [status_query handle kw, Login, status_query handle kw]\<rparr>)
                | Inr r \<Rightarrow> True)"
proof (cases "on_login (self_api_handler self) (api_calls s @ [status_query handle kw])")
  case (Inl e)
  then show ?thesis
    unfolding circuit_status_relogin[OF assms] Let_def
    by (simp add: api_invoke_def)
next
  case (Inr u)
  show ?thesis
  proof (cases "on_retrieve_job_status (self_api_handler self)
                        (api_calls s @ [status_query handle kw, Login]) (fst handle)
                        (get_or (kw_use_websocket kw) True)")
    case (Inl e)
    then show ?thesis
      unfolding circuit_status_relogin[OF assms] Let_def using Inr
      by (simp add: api_invoke_def)
  next
    case r: (Inr r)
    then show ?thesis
      unfolding circuit_status_relogin[OF assms] Let_def using Inr
      by (auto simp: api_invoke_def update_cache_result_calls split: option.splits sum.splits)
  qed
qed

theorem status_one_login_one_retry_witness:
  "api_calls (snd (circuit_status ex_backend (''job-1'', ''null'') ex_kwargs ex_state))
     = [RetrieveJobStatus ''job-1'' True, Login, RetrieveJobStatus ''job-1'' True]
   \<and> circuit_status ex_backend_status_fails (''job-1'', ''null'') ex_kwargs ex_state
     = (Inl (Raised QuantinuumAPIError),
        ex_state\<lparr>api_calls :=
          [RetrieveJobStatus ''job-1'' True, Login, RetrieveJobStatus ''job-1'' True]\<rparr>)"
proof -
  have q: "status_query (''job-1'', ''null'') ex_kwargs = RetrieveJobStatus ''job-1'' True"
    by (simp add: status_query_def ex_kwargs_def get_or_def)
  have c: "api_calls ex_state = []" by (simp add: ex_state_def)
  have d: "\<not> is_debug_handle ex_backend (fst (''job-1'', ''null''))"
    "\<not> is_debug_handle ex_backend_status_fails (fst (''job-1'', ''null''))"
    by (simp_all add: is_debug_handle_def ex_backend_def ex_backend_status_fails_def
        startswith_def DEBUG_HANDLE_PREFIX_def)
  have f: "on_retrieve_job_status (self_api_handler ex_backend) (api_calls ex_state)
             (fst (''job-1'', ''null'')) (get_or (kw_use_websocket ex_kwargs) True)
           = Inl QuantinuumAPIError"
    by (simp add: ex_backend_def ex_api_def c)
  have g: "on_retrieve_job_status (self_api_handler ex_backend_status_fails) (api_calls ex_state)
             (fst (''job-1'', ''null'')) (get_or (kw_use_websocket ex_kwargs) True)
           = Inl QuantinuumAPIError"
    by (simp add: ex_backend_status_fails_def)
  have l: "on_login (self_api_handler ex_backend) h = Inr ()"
    "on_login (self_api_handler ex_backend_status_fails) h = Inr ()" for h
    by (simp_all add: ex_backend_def ex_backend_status_fails_def ex_api_def)
  have r: "on_retrieve_job_status (self_api_handler ex_backend_status_fails) h j w
             = Inl QuantinuumAPIError" for h j w
    by (simp add: ex_backend_status_fails_def)
  from status_one_login_one_retry[OF d(1) f]
  have a: "api_calls (snd (circuit_status ex_backend (''job-1'', ''null'') ex_kwargs ex_state))
     = [RetrieveJobStatus ''job-1'' True, Login, RetrieveJobStatus ''job-1'' True]"
    unfolding q c l sum.case by simp
  from status_one_login_one_retry[OF d(2) g]
  have b: "circuit_status ex_backend_status_fails (''job-1'', ''null'') ex_kwargs ex_state
     = (Inl (Raised QuantinuumAPIError),
        ex_state\<lparr>api_calls :=
          [RetrieveJobStatus ''job-1'' True, Login, RetrieveJobStatus ''job-1'' True]\<rparr>)"
    unfolding q c l r sum.case by simp
  from a b show ?thesis by simp
qed

text \<open>
  Claim C4 as stated has the query retried exactly once after every authentication
  failure. When the login attempt itself raises, its error propagates and the query
  is made only the one time.
\<close>

theorem status_one_login_one_retry_counterexample:
  "\<not> is_debug_handle ex_backend_login_fails ''job-1''
   \<and> on_retrieve_job_status (self_api_handler ex_backend_login_fails) (api_calls ex_state)
        ''job-1'' True = Inl QuantinuumAPIError
   \<and> circuit_status ex_backend_login_fails (''job-1'', ''null'') ex_kwargs ex_state
     = (Inl (Raised ConnectionError),
        ex_state\<lparr>api_calls := [RetrieveJobStatus ''job-1'' True, Login]\<rparr>)"
  by (simp add: is_debug_handle_def ex_backend_login_fails_def ex_backend_def startswith_def
      DEBUG_HANDLE_PREFIX_def ex_api_def ex_state_def circuit_status_def Let_def api_invoke_def
      ex_kwargs_def get_or_def)

section \<open>Merging option dictionaries\<close>

lemma submit_qasm_body:
  "submit_qasm self qasm n_shots name noisy_simulation grp wasm pytket_pass no_opt options
       request_options s = (r, s') \<Longrightarrow>
     (case wasm_check self wasm s of
        (Inl e, s1) \<Rightarrow> r = Inl e \<and> s' = s1
      | (Inr u, s1) \<Rightarrow>
          api_calls s' = api_calls s1 @
            [SubmitJob (request_body self qasm n_shots name noisy_simulation grp wasm
                          pytket_pass no_opt options request_options)])"
  by (auto simp: submit_qasm_def Let_def api_invoke_def
      split: sum.splits prod.splits if_splits option.splits)

text \<open>
  Claim C5. For every submission the options dictionary of the request body is the
  fixed options overridden by the instance-level options, overridden in turn by the
  call-level \<open>options\<close>: on every key the call-level value wins over the instance-level
  one. The call-level \<open>request_options\<close> are applied last to the body itself: on every
  key they hold, their value is the one in the body, the \<open>options\<close> key included. The
  body so built is the one that \<open>submit_qasm\<close> hands to the API handler.
\<close>

theorem option_merge_precedence:
  "merged_options self no_opt noisy_simulation pytket_pass options k =
     (case get_or options Map.empty k of
        Some v \<Rightarrow> Some v
      | None \<Rightarrow>
          (case self_process_circuits_options self k of
             Some v \<Rightarrow> Some v
           | None \<Rightarrow> base_options self no_opt noisy_simulation pytket_pass k))
   \<and> request_body self qasm n_shots name noisy_simulation grp wasm pytket_pass no_opt options
         request_options k =
     (case get_or request_options Map.empty k of
        Some v \<Rightarrow> Some v
      | None \<Rightarrow>
          request_body self qasm n_shots name noisy_simulation grp wasm pytket_pass no_opt
            options None k)
   \<and> request_body self qasm n_shots name noisy_simulation grp wasm pytket_pass no_opt options
         None ''options'' =
       Some (JDict (merged_options self no_opt noisy_simulation pytket_pass options))
   \<and> (case wasm_check self wasm s of
         (Inl e, s1) \<Rightarrow>
           submit_qasm self qasm n_shots name noisy_simulation grp wasm pytket_pass no_opt
             options request_options s = (Inl e, s1)
       | (Inr u, s1) \<Rightarrow>
           api_calls (snd (submit_qasm self qasm n_shots name noisy_simulation grp wasm
                             pytket_pass no_opt options request_options s)) =
             api_calls s1 @
               [SubmitJob (request_body self qasm n_shots name noisy_simulation grp wasm
                             pytket_pass no_opt options request_options)])"
proof -
  have a: "merged_options self no_opt noisy_simulation pytket_pass options k =
     (case get_or options Map.empty k of
        Some v \<Rightarrow> Some v
      | None \<Rightarrow>
          (case self_process_circuits_options self k of
             Some v \<Rightarrow> Some v
           | None \<Rightarrow> base_options self no_opt noisy_simulation pytket_pass k))"
    by (simp add: merged_options_def Let_def get_or_def map_add_def
        split: option.splits)
  have b: "request_body self qasm n_shots name noisy_simulation grp wasm pytket_pass no_opt options
         request_options k =
     (case get_or request_options Map.empty k of
        Some v \<Rightarrow> Some v
      | None \<Rightarrow>
          request_body self qasm n_shots name noisy_simulation grp wasm pytket_pass no_opt
            options None k)"
    by (simp add: request_body_def Let_def get_or_def map_add_def split: option.splits)
  have c: "request_body self qasm n_shots name noisy_simulation grp wasm pytket_pass no_opt options
         None ''options'' =
       Some (JDict (merged_options self no_opt noisy_simulation pytket_pass options))"
    by (simp add: request_body_def Let_def get_or_def)
  have d: "case wasm_check self wasm s of
         (Inl e, s1) \<Rightarrow>
           submit_qasm self qasm n_shots name noisy_simulation grp wasm pytket_pass no_opt
             options request_options s = (Inl e, s1)
       | (Inr u, s1) \<Rightarrow>
           api_calls (snd (submit_qasm self qasm n_shots name noisy_simulation grp wasm
                             pytket_pass no_opt options request_options s)) =
             api_calls s1 @
               [SubmitJob (request_body self qasm n_shots name noisy_simulation grp wasm
                             pytket_pass no_opt options request_options)]"
    using submit_qasm_body[of self qasm n_shots name noisy_simulation grp wasm pytket_pass
        no_opt options request_options s
        "fst (submit_qasm self qasm n_shots name noisy_simulation grp wasm pytket_pass
               no_opt options request_options s)"
        "snd (submit_qasm self qasm n_shots name noisy_simulation grp wasm pytket_pass
               no_opt options request_options s)"]
    by (auto split: sum.splits prod.splits intro: prod_eqI)
  from a b c d show ?thesis by blast
qed

theorem option_merge_precedence_witness:
  "merged_options ex_backend_options False True None (Some [''shared'' \<mapsto> JInt 2]) ''shared''
     = Some (JInt 2)
   \<and> merged_options ex_backend_options False True None (Some [''shared'' \<mapsto> JInt 2]) ''simulator''
     = Some (JStr ''stabilizer'')
   \<and> merged_options ex_backend_options False True None (Some [''shared'' \<mapsto> JInt 2]) ''no-opt''
     = Some (JBool False)
   \<and> request_body ex_backend_options ''qasm'' 10 None True None None None False
         (Some [''shared'' \<mapsto> JInt 2]) (Some [''count'' \<mapsto> JInt 7]) ''count''
     = Some (JInt 7)"
proof -
  note t = option_merge_precedence[of ex_backend_options False True None
      "Some [''shared'' \<mapsto> JInt 2]" _ "''qasm''" 10 None None None
      "Some [''count'' \<mapsto> JInt 7]" ex_state]
  have i: "self_process_circuits_options ex_backend_options
             = [''simulator'' \<mapsto> JStr ''stabilizer'', ''shared'' \<mapsto> JInt 1]"
    by (simp add: ex_backend_options_def)
  have a: "merged_options ex_backend_options False True None (Some [''shared'' \<mapsto> JInt 2]) ''shared''
     = Some (JInt 2)"
    using t[of "''shared''"] by (simp add: get_or_def)
  have b: "merged_options ex_backend_options False True None (Some [''shared'' \<mapsto> JInt 2]) ''simulator''
     = Some (JStr ''stabilizer'')"
    using t[of "''simulator''"] by (simp add: get_or_def i)
  have c: "merged_options ex_backend_options False True None (Some [''shared'' \<mapsto> JInt 2]) ''no-opt''
     = Some (JBool False)"
    using t[of "''no-opt''"] by (simp add: get_or_def i base_options_def)
  have d: "request_body ex_backend_options ''qasm'' 10 None True None None None False
         (Some [''shared'' \<mapsto> JInt 2]) (Some [''count'' \<mapsto> JInt 7]) ''count''
     = Some (JInt 7)"
    using t[of "''count''"] by (simp add: get_or_def)
  from a b c d show ?thesis by blast
qed

section \<open>The shot limit\<close>

lemma process_loop_exceeds:
  assumes "exceeds_max m n"
  shows "process_loop self kw m (xs @ (c, n) # ys) hs s =
           (case process_loop self kw m xs hs s of
              (Inl e, s') \<Rightarrow> (Inl e, s')
            | (Inr hs', s') \<Rightarrow> (Inl MaxShotsExceeded, s'))"
proof (induction xs arbitrary: hs s)
  case Nil
  show ?case using assms by simp
next
  case (Cons x xs)
  obtain circ k where x: "x = (circ, k)" by (cases x)
  show ?case
    unfolding x
    by (simp add: Cons.IH Let_def split: option.splits sum.splits prod.splits)
qed

lemma submissions_simps:
  "submissions [] = 0" "submissions (xs @ ys) = submissions xs + submissions ys"
  "submissions [Login] = 0" "submissions [MachineList] = 0"
  "submissions [SubmitJob body] = 1"
  by (simp_all add: submissions_def is_submit_def)


lemma backend_info_calls:
  assumes "backend_info self s = (r, s')"
  shows "\<exists>new. api_calls s' = api_calls s @ new \<and> submissions new = 0"
proof -
  from assms have "api_calls s' = api_calls s \<or> api_calls s' = api_calls s @ [Login]
      \<or> api_calls s' = api_calls s @ [Login] @ [MachineList]"
    by (auto simp: backend_info_def retrieve_backendinfo_def available_devices_def
        api_invoke_def split: if_splits sum.splits prod.splits option.splits)
  then show ?thesis
  proof (elim disjE)
    assume "api_calls s' = api_calls s"
    then have "api_calls s' = api_calls s @ [] \<and> submissions [] = 0"
      by (simp add: submissions_simps)
    then show ?thesis by blast
  next
    assume "api_calls s' = api_calls s @ [Login]"
    then have "api_calls s' = api_calls s @ [Login] \<and> submissions [Login] = 0"
      by (simp add: submissions_simps)
    then show ?thesis by blast
  next
    assume "api_calls s' = api_calls s @ [Login] @ [MachineList]"
    then have "api_calls s' = api_calls s @ ([Login] @ [MachineList])
        \<and> submissions ([Login] @ [MachineList]) = 0"
      by (simp add: submissions_def is_submit_def)
    then show ?thesis by blast
  qed
qed

lemma wasm_check_calls:
  assumes "wasm_check self w s = (r, s')"
  shows "\<exists>new. api_calls s' = api_calls s @ new \<and> submissions new = 0"
proof (cases w)
  case None
  with assms show ?thesis by (auto simp: wasm_check_def submissions_simps)
next
  case (Some t)
  obtain r1 s1 where b: "backend_info self s = (r1, s1)" by (cases "backend_info self s")
  from assms Some b have "s' = s1"
    by (auto simp: wasm_check_def split: sum.splits option.splits if_splits)
  with backend_info_calls[OF b] show ?thesis by simp
qed

lemma submit_qasm_calls:
  assumes "submit_qasm self q n nm ns g w pp no opts ro s = (r, s')"
  shows "\<exists>new. api_calls s' = api_calls s @ new \<and> submissions new \<le> 1"
proof -
  obtain r1 s1 where c: "wasm_check self w s = (r1, s1)" by (cases "wasm_check self w s")
  from wasm_check_calls[OF c] obtain new1
    where n1: "api_calls s1 = api_calls s @ new1" "submissions new1 = 0" by blast
  from assms c have "api_calls s' = api_calls s1
      \<or> (\<exists>body. api_calls s' = api_calls s1 @ [SubmitJob body])"
    by (auto simp: submit_qasm_def Let_def api_invoke_def
        split: sum.splits prod.splits if_splits option.splits)
  then show ?thesis
  proof
    assume "api_calls s' = api_calls s1"
    with n1 show ?thesis by auto
  next
    assume "\<exists>body. api_calls s' = api_calls s1 @ [SubmitJob body]"
    then obtain body where "api_calls s' = api_calls s @ (new1 @ [SubmitJob body])"
      using n1 by auto
    moreover have "submissions (new1 @ [SubmitJob body]) \<le> 1"
      by (simp add: submissions_simps n1)
    ultimately show ?thesis by blast
  qed
qed

lemma process_loop_calls:
  "process_loop self kw m xs hs s = (r, s') \<Longrightarrow>
     \<exists>new. api_calls s' = api_calls s @ new \<and> submissions new \<le> length xs"
proof (induction xs arbitrary: hs s)
  case Nil
  then show ?case by (auto simp: submissions_simps)
next
  case (Cons x xs)
  obtain circ k where x: "x = (circ, k)" by (cases x)
  let ?pp = "get_or (kw_postprocess kw) False"
  let ?q = "if ?pp then c_prepared_qasm circ else c_qasm circ"
  show ?case
  proof (cases "exceeds_max m k \<or> ?q = None")
    case True
    with Cons.prems have "s' = s" unfolding x
      by (cases "get_or (kw_postprocess kw) False") (auto simp: Let_def split: if_splits)
    then show ?thesis by (auto simp: submissions_simps)
  next
    case False
    then obtain qc where q: "?q = Some qc" and e: "\<not> exceeds_max m k" by auto
    have unf: "process_loop self kw m (x # xs) hs s =
        (if self_MACHINE_DEBUG self
         then process_loop self kw m xs
                (hs @ [(DEBUG_HANDLE_PREFIX @ str_tuple2 (int (c_n_qubits circ)) k,
                        dumps_ppcirc (if ?pp then Some (c_ppcirc_rep circ) else None))]) s
         else (case submit_qasm self qc k (str_or (c_name circ) None)
                      (get_or (kw_noisy_simulation kw) True)
                      (get_or (kw_group kw) (self_group self))
                      (kw_wasm_file_handler kw)
                      (kw_pytketpass kw)
                      (get_or (kw_no_opt kw) False)
                      (Some (get_or (kw_options kw) Map.empty))
                      (Some (get_or (kw_request_options kw) Map.empty)) s of
                 (Inl e, s1) \<Rightarrow> (Inl e, s1)
               | (Inr h, s1) \<Rightarrow>
                   process_loop self kw m xs
                     (hs @ [(fst h, dumps_ppcirc (if ?pp then Some (c_ppcirc_rep circ) else None))])
                     (s1\<lparr>self_cache := (self_cache s1)
                        ((fst h, dumps_ppcirc (if ?pp then Some (c_ppcirc_rep circ) else None))
                           \<mapsto> None)\<rparr>)))"
      unfolding x using q e
      by (cases "get_or (kw_postprocess kw) False")
        (auto simp: Let_def split: sum.splits prod.splits)
    show ?thesis
    proof (cases "self_MACHINE_DEBUG self")
      case True
      with Cons.prems obtain h where
        "process_loop self kw m xs (hs @ [h]) s = (r, s')"
        unfolding unf by auto
      from Cons.IH[OF this] show ?thesis by auto
    next
      case False
      let ?sub = "submit_qasm self qc k (str_or (c_name circ) None)
                      (get_or (kw_noisy_simulation kw) True)
                      (get_or (kw_group kw) (self_group self))
                      (kw_wasm_file_handler kw)
                      (kw_pytketpass kw)
                      (get_or (kw_no_opt kw) False)
                      (Some (get_or (kw_options kw) Map.empty))
                      (Some (get_or (kw_request_options kw) Map.empty)) s"
      obtain r1 s1 where sub: "?sub = (r1, s1)" by (cases ?sub)
      from submit_qasm_calls[OF sub] obtain new1
        where n1: "api_calls s1 = api_calls s @ new1" "submissions new1 \<le> 1" by blast
      show ?thesis
      proof (cases r1)
        case (Inl err)
        with Cons.prems False sub have "s' = s1"
          unfolding unf by auto
        with n1 show ?thesis by auto
      next
        case (Inr h)
        with Cons.prems False sub obtain h' c' where
          l: "process_loop self kw m xs (hs @ [h']) (s1\<lparr>self_cache := c'\<rparr>) = (r, s')"
          unfolding unf by auto
        from Cons.IH[OF l] obtain new2
          where n2: "api_calls s' = api_calls s1 @ new2" "submissions new2 \<le> length xs"
          by auto
        have "api_calls s' = api_calls s @ (new1 @ new2)" using n1 n2 by simp
        moreover have "submissions (new1 @ new2) \<le> length (x # xs)"
          using n1 n2 by (simp add: submissions_simps)
        ultimately show ?thesis by blast
      qed
    qed
  qed
qed

lemma ex_info_fetch:
  "backend_info ex_backend ex_state
     = (Inr (Some ex_info), \<lparr>self_backend_info = Some ex_info, self_cache = Map.empty,
                              api_calls = [Login, MachineList]\<rparr>)"
  by (simp add: backend_info_def retrieve_backendinfo_def available_devices_def api_invoke_def
      ex_backend_def ex_state_def ex_api_def ex_info_def ex_device_def)

lemma ex_info_cached:
  "self_backend_info s = Some ex_info \<Longrightarrow> backend_info ex_backend s = (Inr (Some ex_info), s)"
  by (simp add: backend_info_def)

lemma ex_required_predicates:
  assumes "backend_info ex_backend s = (Inr (Some ex_info), s1)"
    and "self_backend_info s1 = Some ex_info"
  shows "required_predicates ex_backend s
     = (Inr [NoSymbolsPredicate, GateSetPredicate (bi_gate_set ex_info),
             MaxNQubitsPredicate (bi_n_nodes ex_info)], s1)"
proof -
  have d: "\<not> self_MACHINE_DEBUG ex_backend" by (simp add: ex_backend_def)
  have g: "gate_set ex_backend s = (Inr (bi_gate_set ex_info), s1)"
    using assms(1) d by (simp add: gate_set_def)
  show ?thesis
    using g d ex_info_cached[OF assms(2)] by (simp add: required_predicates_def Let_def)
qed

text \<open>
  Claim C6, as amended. Let the shot counts be accepted, let the validity check (when
  asked for) pass, and let the device descriptor declare a maximum number of shots \<open>m\<close>. If the
  \<open>i\<close>-th circuit asks for more than \<open>m\<close> shots, \<open>process_circuits\<close> raises: it does
  what the loop does on the \<open>i\<close> circuits before, and then, unless one of them has
  already raised, raises \<open>MaxShotsExceeded\<close> in the state those circuits left. So no
  handle is returned, and after the descriptor is read at most \<open>i\<close> jobs are submitted,
  those of the circuits before: none for the violating circuit, and none for a later one.
\<close>

theorem shot_limit_before_submission:
  assumes "get_n_shots_as_list n_shots (length circuits) = Inr ns"
    and "(if valid_check then check_all_circuits self circuits s else (Inr (), s)) = (Inr (), sA)"
    and "backend_info self sA = (Inr (Some info), sB)"
    and "misc_n_shots info = Some m"
    and "i < length circuits"
    and "m < ns ! i"
  shows "\<exists>r s' new.
           process_loop self kw (Some m) (take i (zip circuits ns)) [] sB = (r, s')
         \<and> process_circuits self circuits n_shots valid_check kw s
             = ((case r of Inl e \<Rightarrow> Inl e | Inr hs \<Rightarrow> Inl MaxShotsExceeded), s')
         \<and> api_calls s' = api_calls sB @ new \<and> submissions new \<le> i"
proof -
  from get_n_shots_as_list_Inr[OF assms(1)] have len: "length ns = length circuits" by simp
  let ?zs = "zip circuits ns"
  have iz: "i < length ?zs" using assms(5) len by simp
  have zi: "?zs ! i = (circuits ! i, ns ! i)" using assms(5) len by simp
  have split: "?zs = take i ?zs @ (circuits ! i, ns ! i) # drop (Suc i) ?zs"
    using id_take_nth_drop[OF iz] zi by simp
  have ex: "exceeds_max (Some m) (ns ! i)" using assms(6) by (simp add: exceeds_max_def)
  obtain r s' where l: "process_loop self kw (Some m) (take i ?zs) [] sB = (r, s')"
    by (cases "process_loop self kw (Some m) (take i ?zs) [] sB")
  have "process_loop self kw (Some m) ?zs [] sB =
          (case process_loop self kw (Some m) (take i ?zs) [] sB of
              (Inl e, s') \<Rightarrow> (Inl e, s')
            | (Inr hs', s') \<Rightarrow> (Inl MaxShotsExceeded, s'))"
    using process_loop_exceeds[OF ex, of self kw "take i ?zs" "circuits ! i"
        "drop (Suc i) ?zs" "[]" sB] split by simp
  then have loop: "process_loop self kw (Some m) ?zs [] sB
          = ((case r of Inl e \<Rightarrow> Inl e | Inr hs \<Rightarrow> Inl MaxShotsExceeded), s')"
    unfolding l by (cases r) simp_all
  have pc: "process_circuits self circuits n_shots valid_check kw s
          = process_loop self kw (Some m) ?zs [] sB"
    using assms(1,2,3,4) by (simp add: process_circuits_def Let_def)
  from process_loop_calls[OF l] obtain new
    where n: "api_calls s' = api_calls sB @ new" "submissions new \<le> length (take i ?zs)"
    by blast
  from n(2) iz have "submissions new \<le> i" by simp
  with l loop pc n(1) show ?thesis by auto
qed

theorem shot_limit_before_submission_witness:
  "fst (process_circuits ex_backend [ex_circuit] (ShotsInt 101) True ex_kwargs ex_state)
     = Inl MaxShotsExceeded
   \<and> api_calls (snd (process_circuits ex_backend [ex_circuit] (ShotsInt 101) True ex_kwargs
                       ex_state))
     = [Login, MachineList]"
proof -
  let ?sB = "\<lparr>self_backend_info = Some ex_info, self_cache = Map.empty,
              api_calls = [Login, MachineList]\<rparr>"
  have n: "get_n_shots_as_list (ShotsInt 101) (length [ex_circuit]) = Inr [101]"
    by (simp add: get_n_shots_as_list_def validate_n_shots_def)
  have v: "list_all (\<lambda>pred. verify pred ex_circuit)
             [NoSymbolsPredicate, GateSetPredicate (bi_gate_set ex_info),
              MaxNQubitsPredicate (bi_n_nodes ex_info)]"
    by (simp add: ex_circuit_def ex_info_def dict_to_backendinfo_def ex_device_def
        get_gateset_def GATE_SET_def)
  have c: "(if True then check_all_circuits ex_backend [ex_circuit] ex_state
            else (Inr (), ex_state)) = (Inr (), ?sB)"
    using ex_required_predicates[OF ex_info_fetch] v by simp
  have b: "backend_info ex_backend ?sB = (Inr (Some ex_info), ?sB)"
    by (rule ex_info_cached) simp
  have m: "misc_n_shots ex_info = Some 100"
    by (simp add: ex_info_def dict_to_backendinfo_def ex_device_def)
  from shot_limit_before_submission[OF n c b m, of 0 ex_kwargs]
  obtain r s' new where
    "process_loop ex_backend ex_kwargs (Some 100) (take 0 (zip [ex_circuit] [101])) [] ?sB = (r, s')"
    "process_circuits ex_backend [ex_circuit] (ShotsInt 101) True ex_kwargs ex_state
             = ((case r of Inl e \<Rightarrow> Inl e | Inr hs \<Rightarrow> Inl MaxShotsExceeded), s')"
    by auto
  then show ?thesis by auto
qed

text \<open>
  Claim C6 as stated has every submission over the limit raise \<open>MaxShotsExceeded\<close>. The
  validity check comes first: a circuit with free symbols, submitted for 101 shots to a
  device limited to 100, raises \<open>CircuitNotValidError\<close>.
\<close>

theorem shot_limit_before_submission_counterexample:
  "self_backend_info ex_state_info = Some ex_info
   \<and> misc_n_shots ex_info = Some 100
   \<and> process_circuits ex_backend [ex_symbolic_circuit] (ShotsInt 101) True ex_kwargs
       ex_state_info
     = (Inl CircuitNotValidError, ex_state_info)"
proof -
  have i: "self_backend_info ex_state_info = Some ex_info"
    by (simp add: ex_state_info_def)
  have m: "misc_n_shots ex_info = Some 100"
    by (simp add: ex_info_def dict_to_backendinfo_def ex_device_def)
  have n: "get_n_shots_as_list (ShotsInt 101) (length [ex_symbolic_circuit]) = Inr [101]"
    by (simp add: get_n_shots_as_list_def validate_n_shots_def)
  have c: "check_all_circuits ex_backend [ex_symbolic_circuit] ex_state_info
             = (Inl CircuitNotValidError, ex_state_info)"
    using ex_required_predicates[OF ex_info_cached[OF i] i]
    by (simp add: ex_symbolic_circuit_def)
  show ?thesis using i m n c by (simp add: process_circuits_def)
qed

section \<open>Starting a batch\<close>

lemma descriptor_calls_append:
  "list_all is_descriptor_call xs \<Longrightarrow> list_all is_descriptor_call ys \<Longrightarrow>
     list_all is_descriptor_call (xs @ ys)"
  by simp



















end
